theory Spec2Isabelle
  imports
    Main
    "HOL-Library.Sublist"
    "HOL-Library.Char_ord"
    "HOL-Library.List_Lexorder"
    "HOL-Library.Multiset"
begin

section \<open>Strings and integers of the Go runtime\<close>

text \<open>
  A Go string is a sequence of bytes; it is modelled as \<^typ>\<open>string\<close>, a list of
  \<^typ>\<open>char\<close>, each of which is one byte. \<^verbatim>\<open>strings.Compare\<close>, \<^verbatim>\<open><\<close> on strings
  and \<^verbatim>\<open>slices.Sort\<close> on a string slice compare byte-wise, which is the
  lexicographic order on \<^typ>\<open>char list\<close> over the order of the byte values.
\<close>

definition HasPrefix :: "string \<Rightarrow> string \<Rightarrow> bool" where
  "HasPrefix s p = prefix p s"

definition HasSuffix :: "string \<Rightarrow> string \<Rightarrow> bool" where
  "HasSuffix s p = suffix p s"

definition TrimPrefix :: "string \<Rightarrow> string \<Rightarrow> string" where
  "TrimPrefix s p = (if HasPrefix s p then drop (length p) s else s)"

definition TrimSuffix :: "string \<Rightarrow> string \<Rightarrow> string" where
  "TrimSuffix s p = (if HasSuffix s p then take (length s - length p) s else s)"

definition Compare :: "string \<Rightarrow> string \<Rightarrow> int" where
  "Compare a b = (if a < b then - 1 else if a = b then 0 else 1)"

text \<open>
  Go's \<^verbatim>\<open>int\<close> is taken to be 64 bits wide (amd64, arm64). \<open>wrap64\<close> is the value a
  64-bit signed result has after wrap-around.
\<close>

definition maxInt :: int where
  "maxInt = 2 ^ 63 - 1"

definition wrap64 :: "int \<Rightarrow> int" where
  "wrap64 x = (x + 2 ^ 63) mod 2 ^ 64 - 2 ^ 63"

datatype error =
    ErrSyntax
  | ErrRange
  | ErrNotExist
  | ErrReadDir
  | ErrReadFile
  | ErrExec string
  | ErrUnique
  | ErrTxDone
  | ErrConn
  | Canceled
  | NilPointer
  | Wrapped string error

subsection \<open>strconv.Atoi on a run of digits\<close>

definition isDigit :: "char \<Rightarrow> bool" where
  "isDigit r = (CHR ''0'' \<le> r \<and> r \<le> CHR ''9'')"

definition digitVal :: "char \<Rightarrow> int" where
  "digitVal r = of_char r - 48"

definition decimal :: "string \<Rightarrow> int" where
  "decimal ds = foldl (\<lambda>n r. 10 * n + digitVal r) 0 ds"

text \<open>
  \<^verbatim>\<open>strconv.Atoi\<close>, on the strings \<^verbatim>\<open>extractLeadingNumber\<close> passes to it (signs
  and other characters never reach it): the empty string and a string with a
  character that is not a digit are syntax errors, a value beyond the range of
  \<^verbatim>\<open>int\<close> is a range error, and leading zeros are read like any other digit.
\<close>

definition Atoi :: "string \<Rightarrow> error + int" where
  "Atoi s =
     (if s = [] \<or> \<not> list_all isDigit s then Inl ErrSyntax
      else if decimal s > maxInt then Inl ErrRange
      else Inr (decimal s))"

section \<open>file.go: the version of a file name\<close>

text \<open>
  \<^verbatim>\<open>for _, r := range filename\<close> decodes runes; a rune in \<^verbatim>\<open>'0'..'9'\<close> is a single
  byte, and the loop stops at the first rune outside that range, so the digits
  collected are the longest prefix of digit bytes.
\<close>

definition extractLeadingNumber :: "string \<Rightarrow> int \<times> string" where
  "extractLeadingNumber filename =
     (let numStr = takeWhile isDigit filename in
      if numStr = [] then (0, filename)
      else (case Atoi numStr of
              Inl err \<Rightarrow> (0, filename)
            | Inr num \<Rightarrow> (num, filename)))"

text \<open>The integer a digit string denotes, by the weight of each position.\<close>

definition digitsValue :: "string \<Rightarrow> int" where
  "digitsValue ds = (\<Sum>i<length ds. digitVal (ds ! i) * 10 ^ (length ds - 1 - i))"

section \<open>file.go: the file system that is walked\<close>

text \<open>
  \<^verbatim>\<open>iterMigrationInfo\<close> walks an \<^verbatim>\<open>fs.FS\<close>: \<^verbatim>\<open>fs.Sub(m.FS, path)\<close> or
  \<^verbatim>\<open>os.DirFS(path)\<close>. The file system is a finite tree. A directory holds its
  entries in the order \<^verbatim>\<open>fs.ReadDir\<close> returns them (sorted by name); a regular
  file holds its content; \<open>Unreadable\<close> is a directory whose listing fails.
\<close>

datatype node =
    FileNode string
  | DirNode "(string \<times> node) list"
  | Unreadable

fun IsDir :: "node \<Rightarrow> bool" where
  "IsDir (FileNode content) = False"
| "IsDir (DirNode entries) = True"
| "IsDir Unreadable = True"

text \<open>
  Names of directory entries are path elements: not empty, without a slash, and
  neither \<^verbatim>\<open>.\<close> nor \<^verbatim>\<open>..\<close>. \<open>wfNode\<close> says so of every entry of a tree.
\<close>

definition validName :: "string \<Rightarrow> bool" where
  "validName n = (n \<noteq> [] \<and> CHR ''/'' \<notin> set n \<and> n \<noteq> ''.'' \<and> n \<noteq> ''..'')"

fun wfNode :: "node \<Rightarrow> bool"
  and wfEntries :: "(string \<times> node) list \<Rightarrow> bool" where
  "wfNode (FileNode content) = True"
| "wfNode Unreadable = True"
| "wfNode (DirNode entries) = wfEntries entries"
| "wfEntries [] = True"
| "wfEntries ((n, d) # rest) = (validName n \<and> wfNode d \<and> wfEntries rest)"

text \<open>
  \<^verbatim>\<open>path.Join\<close> and \<^verbatim>\<open>filepath.Join\<close> (with \<^verbatim>\<open>/\<close> as the separator) on a clean
  relative path and an entry name: the result is cleaned, so joining onto the
  root \<^verbatim>\<open>.\<close> gives the name alone.
\<close>

definition Join :: "string \<Rightarrow> string \<Rightarrow> string" where
  "Join dir name = (if dir = ''.'' then name else dir @ ''/'' @ name)"

text \<open>
  \<^verbatim>\<open>filepath.Base\<close>: trailing separators are removed, then the last element is
  returned; the empty path gives \<^verbatim>\<open>.\<close>, a path of separators only gives \<^verbatim>\<open>/\<close>.
\<close>

definition Base :: "string \<Rightarrow> string" where
  "Base path =
     (if path = [] then ''.''
      else (let p = rev (dropWhile (\<lambda>c. c = CHR ''/'') (rev path)) in
            if p = [] then ''/''
            else rev (takeWhile (\<lambda>c. c \<noteq> CHR ''/'') (rev p))))"

fun splitPath :: "string \<Rightarrow> string list" where
  "splitPath [] = [[]]"
| "splitPath (c # cs) =
     (if c = CHR ''/'' then [] # splitPath cs
      else (case splitPath cs of
              [] \<Rightarrow> [[c]]
            | seg # segs \<Rightarrow> (c # seg) # segs))"

fun lookupNode :: "node \<Rightarrow> string list \<Rightarrow> node option" where
  "lookupNode d [] = Some d"
| "lookupNode (DirNode entries) (seg # segs) =
     (case map_of entries seg of
        None \<Rightarrow> None
      | Some d \<Rightarrow> lookupNode d segs)"
| "lookupNode (FileNode content) (seg # segs) = None"
| "lookupNode Unreadable (seg # segs) = None"

definition openPath :: "node \<Rightarrow> string \<Rightarrow> node option" where
  "openPath fileSystem name =
     (if name = ''.'' then Some fileSystem else lookupNode fileSystem (splitPath name))"

definition ReadDir :: "node \<Rightarrow> string \<Rightarrow> error + (string \<times> node) list" where
  "ReadDir fileSystem name =
     (case openPath fileSystem name of
        None \<Rightarrow> Inl ErrNotExist
      | Some (DirNode entries) \<Rightarrow> Inr entries
      | Some Unreadable \<Rightarrow> Inl ErrReadDir
      | Some (FileNode content) \<Rightarrow> Inl ErrReadDir)"

definition ReadFile :: "node \<Rightarrow> string \<Rightarrow> error + string" where
  "ReadFile fileSystem name =
     (case openPath fileSystem name of
        None \<Rightarrow> Inl ErrNotExist
      | Some (FileNode content) \<Rightarrow> Inr content
      | Some (DirNode entries) \<Rightarrow> Inl ErrReadFile
      | Some Unreadable \<Rightarrow> Inl ErrReadFile)"

subsection \<open>fs.WalkDir\<close>

text \<open>
  The callback of \<^verbatim>\<open>fs.WalkDir\<close> returns \<^verbatim>\<open>nil\<close> (\<open>Continue\<close>), \<^verbatim>\<open>fs.SkipDir\<close> or
  another error (\<open>Fail\<close>);
  the state it mutates (here the slice \<^verbatim>\<open>dirs\<close>) is passed through. \<open>walkDir\<close> is
  the recursive helper of the library: it calls the callback on the entry, lists
  a directory, reports a failed listing to the callback a second time, and
  walks the entries in order. \<^verbatim>\<open>fs.SkipDir\<close> from a directory skips that
  directory; from a file it ends the listing of the parent.
\<close>

datatype walkErr = Continue | SkipDir | Fail error

fun walkDir ::
  "(string \<Rightarrow> node \<Rightarrow> error option \<Rightarrow> 'a \<Rightarrow> walkErr \<times> 'a) \<Rightarrow> string \<Rightarrow> node \<Rightarrow> 'a \<Rightarrow> walkErr \<times> 'a"
  and walkEntries ::
  "(string \<Rightarrow> node \<Rightarrow> error option \<Rightarrow> 'a \<Rightarrow> walkErr \<times> 'a) \<Rightarrow> string \<Rightarrow> (string \<times> node) list \<Rightarrow> 'a \<Rightarrow> walkErr \<times> 'a"
  where
  "walkDir fn name (FileNode content) acc =
     (case fn name (FileNode content) None acc of
        (Continue, acc1) \<Rightarrow> (Continue, acc1)
      | (SkipDir, acc1) \<Rightarrow> (SkipDir, acc1)
      | (Fail e, acc1) \<Rightarrow> (Fail e, acc1))"
| "walkDir fn name Unreadable acc =
     (case fn name Unreadable None acc of
        (SkipDir, acc1) \<Rightarrow> (Continue, acc1)
      | (Fail e, acc1) \<Rightarrow> (Fail e, acc1)
      | (Continue, acc1) \<Rightarrow>
          (case fn name Unreadable (Some ErrReadDir) acc1 of
             (SkipDir, acc2) \<Rightarrow> (Continue, acc2)
           | (Fail e, acc2) \<Rightarrow> (Fail e, acc2)
           | (Continue, acc2) \<Rightarrow> (Continue, acc2)))"
| "walkDir fn name (DirNode entries) acc =
     (case fn name (DirNode entries) None acc of
        (SkipDir, acc1) \<Rightarrow> (Continue, acc1)
      | (Fail e, acc1) \<Rightarrow> (Fail e, acc1)
      | (Continue, acc1) \<Rightarrow> walkEntries fn name entries acc1)"
| "walkEntries fn name [] acc = (Continue, acc)"
| "walkEntries fn name ((n, d1) # rest) acc =
     (case walkDir fn (Join name n) d1 acc of
        (SkipDir, acc1) \<Rightarrow> (Continue, acc1)
      | (Fail e, acc1) \<Rightarrow> (Fail e, acc1)
      | (Continue, acc1) \<Rightarrow> walkEntries fn name rest acc1)"

text \<open>
  \<^verbatim>\<open>fs.WalkDir(fsys, root, fn)\<close> for a root that exists: \<^verbatim>\<open>fs.SkipDir\<close> at the
  top is not an error.
\<close>

definition WalkDir ::
  "node \<Rightarrow> string \<Rightarrow> (string \<Rightarrow> node \<Rightarrow> error option \<Rightarrow> 'a \<Rightarrow> walkErr \<times> 'a) \<Rightarrow> 'a \<Rightarrow> error option \<times> 'a" where
  "WalkDir fileSystem root fn acc =
     (case walkDir fn root fileSystem acc of
        (Fail e, acc1) \<Rightarrow> (Some e, acc1)
      | (SkipDir, acc1) \<Rightarrow> (None, acc1)
      | (Continue, acc1) \<Rightarrow> (None, acc1))"

section \<open>file.go: discovery\<close>

record FileInfo =
  Path :: string
  Version :: int

record Muzo =
  Dir :: string
  Files :: "FileInfo list"
  fs :: node

text \<open>
  The configuration. \<^verbatim>\<open>Path\<close> and \<^verbatim>\<open>FS\<close> of the Go struct only select the file
  system that is walked; the functions below take that file system as an
  argument.
\<close>

record Migrate =
  Order :: "string list"
  Skip :: "string list"
  Extension :: string

text \<open>
  \<^verbatim>\<open>doublestar.Match\<close> belongs to a library outside the repository. The functions
  that call it take the matcher as the argument \<open>match\<close>: \<open>match pattern path\<close> is
  the boolean \<^verbatim>\<open>doublestar.Match(pattern, path)\<close> returns (the code ignores the
  error).
\<close>

type_synonym matcher = "string \<Rightarrow> string \<Rightarrow> bool"

fun shouldSkipLoop :: "matcher \<Rightarrow> string \<Rightarrow> string list \<Rightarrow> bool" where
  "shouldSkipLoop match path [] = False"
| "shouldSkipLoop match path (skip # rest) =
     (let pattern = TrimPrefix skip ''/'' in
      if match pattern path then True
      else shouldSkipLoop match path rest)"

definition shouldSkip :: "matcher \<Rightarrow> Migrate \<Rightarrow> string \<Rightarrow> bool" where
  "shouldSkip match m path = shouldSkipLoop match path (Skip m)"

fun shouldSkipDirLoop :: "string \<Rightarrow> string list \<Rightarrow> bool" where
  "shouldSkipDirLoop path [] = False"
| "shouldSkipDirLoop path (skip # rest) =
     (let pattern = TrimPrefix skip ''/'' in
      if pattern = path then True
      else if HasSuffix pattern ''/**''
              \<and> (let basePattern = TrimSuffix pattern ''/**'' in
                   path = basePattern \<or> HasPrefix path (basePattern @ ''/''))
           then True
      else shouldSkipDirLoop path rest)"

definition shouldSkipDir :: "Migrate \<Rightarrow> string \<Rightarrow> bool" where
  "shouldSkipDir m path = shouldSkipDirLoop path (Skip m)"

text \<open>
  \<open>beneath d p\<close>: the path \<open>p\<close> is the directory \<open>d\<close> or lies beneath it. Paths are
  relative to the root \<^verbatim>\<open>.\<close>, beneath which every path lies.
\<close>

definition beneath :: "string \<Rightarrow> string \<Rightarrow> bool" where
  "beneath d p = (d = ''.'' \<or> p = d \<or> prefix (d @ ''/'') p)"



text \<open>The closure \<^verbatim>\<open>getMigrationDirs\<close> passes to \<^verbatim>\<open>fs.WalkDir\<close>; its state is \<^verbatim>\<open>dirs\<close>.\<close>

definition dirsCallback ::
  "matcher \<Rightarrow> Migrate \<Rightarrow> string \<Rightarrow> node \<Rightarrow> error option \<Rightarrow> string list \<Rightarrow> walkErr \<times> string list" where
  "dirsCallback match m path d err dirs =
     (case err of
        Some e \<Rightarrow> (Fail e, dirs)
      | None \<Rightarrow>
          if \<not> IsDir d then (Continue, dirs)
          else if shouldSkipDir m path then (SkipDir, dirs)
          else if \<not> shouldSkip match m path then (Continue, dirs @ [path])
          else (Continue, dirs))"

definition getMigrationDirs :: "matcher \<Rightarrow> Migrate \<Rightarrow> node \<Rightarrow> error + string list" where
  "getMigrationDirs match m fileSystem =
     (case WalkDir fileSystem ''.'' (dirsCallback match m) [] of
        (Some err, dirs) \<Rightarrow> Inl err
      | (None, dirs) \<Rightarrow> Inr dirs)"

subsection \<open>Sorting\<close>

text \<open>
  \<^verbatim>\<open>slices.SortFunc\<close> sorts by a comparison function and is not stable. It is
  modelled by insertion sort. For a comparison that orders its arguments
  totally and calls only equal elements equal, every sorted permutation of the
  input is the same list (lemma \<open>SortFunc_unique\<close> below), so the model returns
  what any sorting algorithm returns; both comparison functions of the program
  are of that kind.
\<close>

fun insertFunc :: "('a \<Rightarrow> 'a \<Rightarrow> int) \<Rightarrow> 'a \<Rightarrow> 'a list \<Rightarrow> 'a list" where
  "insertFunc cmp x [] = [x]"
| "insertFunc cmp x (y # ys) =
     (if cmp x y < 0 then x # y # ys else y # insertFunc cmp x ys)"

definition SortFunc :: "('a \<Rightarrow> 'a \<Rightarrow> int) \<Rightarrow> 'a list \<Rightarrow> 'a list" where
  "SortFunc cmp xs = foldr (insertFunc cmp) xs []"

text \<open>
  \<^verbatim>\<open>orderMap\<close>: each entry of \<^verbatim>\<open>Order\<close>, without a leading slash, is mapped to its
  index; a later entry overwrites an earlier one with the same key.
\<close>

definition orderMap :: "string list \<Rightarrow> (string \<rightharpoonup> int)" where
  "orderMap order =
     fold (\<lambda>(i, o') mp. mp(TrimPrefix o' ''/'' \<mapsto> int i)) (enumerate 0 order) Map.empty"


definition dirCmp :: "(string \<rightharpoonup> int) \<Rightarrow> string \<Rightarrow> string \<Rightarrow> int" where
  "dirCmp om a b =
     (case (om a, om b) of
        (Some aOrder, Some bOrder) \<Rightarrow> aOrder - bOrder
      | (Some aOrder, None) \<Rightarrow> - 1
      | (None, Some bOrder) \<Rightarrow> 1
      | (None, None) \<Rightarrow> Compare a b)"

definition sortDirs :: "Migrate \<Rightarrow> string list \<Rightarrow> string list" where
  "sortDirs m dirs =
     (if length (Order m) = 0 then sort dirs
      else SortFunc (dirCmp (orderMap (Order m))) dirs)"

text \<open>
  The comparison of \<^verbatim>\<open>sortMigrationFiles\<close>. The difference of the two versions is
  computed in \<^verbatim>\<open>int\<close>, hence \<open>wrap64\<close>.
\<close>

definition fileCmp :: "FileInfo \<Rightarrow> FileInfo \<Rightarrow> int" where
  "fileCmp a b =
     (let (aNum, aName) = extractLeadingNumber (Base (Path a));
          (bNum, bName) = extractLeadingNumber (Base (Path b))
      in if aNum \<noteq> bNum then wrap64 (aNum - bNum)
         else Compare aName bName)"

definition sortMigrationFiles :: "FileInfo list \<Rightarrow> FileInfo list" where
  "sortMigrationFiles files = SortFunc fileCmp files"

text \<open>
  \<^verbatim>\<open>strings.ToLower\<close>. A string is its sequence of bytes. On a string of ASCII
  bytes only, the library lowers the letters \<^verbatim>\<open>A\<close> to \<^verbatim>\<open>Z\<close>. On any other string
  it maps \<^verbatim>\<open>unicode.ToLower\<close> over the runes of the string; the tables of
  Unicode, like the matcher, are outside the repository, and the functions that
  call \<^verbatim>\<open>strings.ToLower\<close> take that part as the argument \<open>lower\<close>. The
  concrete trees and configurations below have ASCII names only, for which
  \<open>lower\<close> is not called; they are given \<open>id\<close>.
\<close>

type_synonym lowering = "string \<Rightarrow> string"

definition ToLower :: "lowering \<Rightarrow> string \<Rightarrow> string" where
  "ToLower lower s =
     (if list_all (\<lambda>c. (of_char c :: nat) < 128) s
      then map (\<lambda>c. if CHR ''A'' \<le> c \<and> c \<le> CHR ''Z'' then char_of (of_char c + (32::nat)) else c) s
      else lower s)"

text \<open>The loop of \<^verbatim>\<open>getMigrationFiles\<close> over the entries of a directory.\<close>

fun collectFiles :: "lowering \<Rightarrow> matcher \<Rightarrow> Migrate \<Rightarrow> string \<Rightarrow> (string \<times> node) list \<Rightarrow> FileInfo list" where
  "collectFiles lower match m dir [] = []"
| "collectFiles lower match m dir ((name, entry) # rest) =
     (if IsDir entry then collectFiles lower match m dir rest
      else (let fullPath = (if dir \<noteq> ''.'' then Join dir name else name) in
            if shouldSkip match m fullPath then collectFiles lower match m dir rest
            else if Extension m \<noteq> [] \<and> \<not> HasSuffix (ToLower lower name) (ToLower lower (Extension m))
              then collectFiles lower match m dir rest
            else (let n = fst (extractLeadingNumber name) in
                  if n > 0 then \<lparr>Path = name, Version = n\<rparr> # collectFiles lower match m dir rest
                  else collectFiles lower match m dir rest)))"

definition getMigrationFiles :: "lowering \<Rightarrow> matcher \<Rightarrow> Migrate \<Rightarrow> node \<Rightarrow> string \<Rightarrow> error + FileInfo list" where
  "getMigrationFiles lower match m fileSystem dir =
     (case ReadDir fileSystem dir of
        Inl err \<Rightarrow> Inl err
      | Inr entries \<Rightarrow> Inr (sortMigrationFiles (collectFiles lower match m dir entries)))"

text \<open>
  \<^verbatim>\<open>iterMigrationInfo\<close> is an iterator. The model is the list of the pairs it
  yields to a consumer that never stops it; a consumer that stops early sees a
  prefix of the list. \<open>fsub\<close> is the result of selecting the file system: an
  error when \<^verbatim>\<open>fs.Sub\<close> fails or the root cannot be opened, which is yielded as
  the only item.
\<close>

definition iterMigrationInfo :: "lowering \<Rightarrow> matcher \<Rightarrow> Migrate \<Rightarrow> error + node \<Rightarrow> (error + Muzo) list" where
  "iterMigrationInfo lower match m fsub =
     (case fsub of
        Inl err \<Rightarrow> [Inl err]
      | Inr fileSystem \<Rightarrow>
          (case getMigrationDirs match m fileSystem of
             Inl err \<Rightarrow> [Inl err]
           | Inr dirs \<Rightarrow>
               map (\<lambda>dir. case getMigrationFiles lower match m fileSystem dir of
                            Inl err \<Rightarrow> Inl err
                          | Inr files \<Rightarrow> Inr \<lparr>Dir = dir, Files = files, fs = fileSystem\<rparr>)
                   (sortDirs m dirs)))"

text \<open>The method \<^verbatim>\<open>ReadFile\<close> of \<^verbatim>\<open>Muzo\<close>.\<close>

definition MuzoReadFile :: "Muzo \<Rightarrow> string \<Rightarrow> error + string" where
  "MuzoReadFile d filePath = ReadFile (fs d) (Join (Dir d) filePath)"

subsection \<open>Glob patterns\<close>

text \<open>
  Modelled from the spec: \<^verbatim>\<open>doublestar.Match\<close> (github.com/bmatcuk/doublestar/v4) is
  not among the sources. The spec describes the patterns: \<^verbatim>\<open>**\<close> for a recursive
  match, \<^verbatim>\<open>*\<close> for a match within one path segment, any other character for
  itself. Pattern and path are split at the slashes; a pattern segment \<^verbatim>\<open>**\<close>
  matches any number of path segments (also none), any other pattern segment
  matches one path segment, in which \<^verbatim>\<open>*\<close> stands for any run of characters.
  Character classes, alternatives, \<^verbatim>\<open>?\<close> and escapes are outside this fragment;
  \<open>plain\<close> is a string without any of those characters and without a star.
\<close>

fun segMatch :: "string \<Rightarrow> string \<Rightarrow> bool" where
  "segMatch [] cs = (cs = [])"
| "segMatch (p # ps) [] = (p = CHR ''*'' \<and> segMatch ps [])"
| "segMatch (p # ps) (c # cs) =
     (if p = CHR ''*'' then segMatch ps (c # cs) \<or> segMatch (p # ps) cs
      else p = c \<and> segMatch ps cs)"

fun pathMatch :: "string list \<Rightarrow> string list \<Rightarrow> bool" where
  "pathMatch [] ns = (ns = [])"
| "pathMatch (p # ps) [] = (p = ''**'' \<and> pathMatch ps [])"
| "pathMatch (p # ps) (n # ns) =
     (if p = ''**'' then pathMatch ps (n # ns) \<or> pathMatch (p # ps) ns
      else segMatch p n \<and> pathMatch ps ns)"

definition globMatch :: matcher where
  "globMatch pattern name = pathMatch (splitPath pattern) (splitPath name)"


section \<open>muz.go: the driver interface and the orchestrator\<close>

text \<open>
  A \<^verbatim>\<open>Driver\<close> has three methods that return an error (\<open>None\<close> is \<^verbatim>\<open>nil\<close>). Their
  receiver is mutable: each method takes the state \<open>'s\<close> of the driver and of the
  storage behind it and returns the new one. The context \<^verbatim>\<open>ctx\<close> is passed to
  the methods unchanged and is never read by the orchestrator; what a driver
  reads from it is part of \<open>'s\<close>.
\<close>

record 's Driver =
  Start :: "'s \<Rightarrow> error option \<times> 's"
  Process :: "Muzo \<Rightarrow> 's \<Rightarrow> error option \<times> 's"
  End :: "error option \<Rightarrow> 's \<Rightarrow> error option \<times> 's"

definition Migrations :: "lowering \<Rightarrow> matcher \<Rightarrow> Migrate \<Rightarrow> error + node \<Rightarrow> (error + Muzo) list" where
  "Migrations lower match m fsub = iterMigrationInfo lower match m fsub"

text \<open>
  The \<^verbatim>\<open>for ... range m.Migrations()\<close> loop of \<^verbatim>\<open>Migrate\<close>: it returns at the first
  error that is yielded and at the first error of \<^verbatim>\<open>Process\<close>.
\<close>

fun migrateLoop :: "'s Driver \<Rightarrow> (error + Muzo) list \<Rightarrow> 's \<Rightarrow> error option \<times> 's" where
  "migrateLoop driver [] s = (None, s)"
| "migrateLoop driver (Inl err # rest) s = (Some err, s)"
| "migrateLoop driver (Inr info # rest) s =
     (case Process driver info s of
        (Some err, s1) \<Rightarrow> (Some err, s1)
      | (None, s1) \<Rightarrow> migrateLoop driver rest s1)"

text \<open>
  \<^verbatim>\<open>Migrate\<close>, over the sequence \<^verbatim>\<open>m.Migrations()\<close> yields. The statement
  \<^verbatim>\<open>defer driver.End(ctx, err)\<close> evaluates the arguments of the call when the
  \<^verbatim>\<open>defer\<close> statement runs: \<^verbatim>\<open>err\<close> is the named result there (the \<^verbatim>\<open>err\<close> of
  the \<^verbatim>\<open>if\<close> above it is out of scope), and no \<^verbatim>\<open>return\<close> has assigned it yet, so
  the value saved for the call is \<^verbatim>\<open>nil\<close>. The call itself runs when \<^verbatim>\<open>Migrate\<close>
  returns, and what a deferred call returns is discarded.
\<close>

definition MigrateOver :: "(error + Muzo) list \<Rightarrow> 's Driver \<Rightarrow> 's \<Rightarrow> error option \<times> 's" where
  "MigrateOver migrations driver s =
     (case Start driver s of
        (Some err, s1) \<Rightarrow> (Some err, s1)
      | (None, s1) \<Rightarrow>
          (let deferredErr = None;
               (err, s2) = migrateLoop driver migrations s1;
               (discarded, s3) = End driver deferredErr s2
           in (err, s3)))"

definition Migrate :: "lowering \<Rightarrow> matcher \<Rightarrow> Migrate \<Rightarrow> error + node \<Rightarrow> 's Driver \<Rightarrow> 's \<Rightarrow> error option \<times> 's" where
  "Migrate lower match m fsub driver s = MigrateOver (Migrations lower match m fsub) driver s"

subsection \<open>The earlier orchestrator (\<^verbatim>\<open>src/unnamed/part_000\<close>)\<close>

text \<open>
  The earlier \<^verbatim>\<open>Migrate\<close> calls one function \<^verbatim>\<open>apply(ctx, status, data)\<close> for the
  start, for every file and for the end, and it reads \<^verbatim>\<open>ctx.Err()\<close> before the
  files of each yielded set. \<open>ctxErr\<close> reads the context from the state, so that a
  cancellation between two calls shows in the state the earlier call returns.
  The sets of that version list file paths.
\<close>

datatype status = StatusStart | StatusProcess | StatusEnd

fun applyFilesEarlier ::
  "(status \<Rightarrow> string option \<Rightarrow> 's \<Rightarrow> error option \<times> 's) \<Rightarrow> string list \<Rightarrow> 's \<Rightarrow> error option \<times> 's" where
  "applyFilesEarlier apply [] s = (None, s)"
| "applyFilesEarlier apply (file # rest) s =
     (case apply StatusProcess (Some file) s of
        (Some err, s1) \<Rightarrow> (Some err, s1)
      | (None, s1) \<Rightarrow> applyFilesEarlier apply rest s1)"

fun migrateLoopEarlier ::
  "('s \<Rightarrow> error option) \<Rightarrow> (status \<Rightarrow> string option \<Rightarrow> 's \<Rightarrow> error option \<times> 's) \<Rightarrow>
   (error + string list) list \<Rightarrow> 's \<Rightarrow> error option \<times> 's" where
  "migrateLoopEarlier ctxErr apply [] s = (None, s)"
| "migrateLoopEarlier ctxErr apply (Inl err # rest) s = (Some err, s)"
| "migrateLoopEarlier ctxErr apply (Inr files # rest) s =
     (if ctxErr s \<noteq> None then (ctxErr s, s)
      else (case applyFilesEarlier apply files s of
              (Some err, s1) \<Rightarrow> (Some err, s1)
            | (None, s1) \<Rightarrow> migrateLoopEarlier ctxErr apply rest s1))"

definition MigrateEarlier ::
  "('s \<Rightarrow> error option) \<Rightarrow> (status \<Rightarrow> string option \<Rightarrow> 's \<Rightarrow> error option \<times> 's) \<Rightarrow>
   (error + string list) list \<Rightarrow> 's \<Rightarrow> error option \<times> 's" where
  "MigrateEarlier ctxErr apply migrations s =
     (case apply StatusStart None s of
        (Some err, s1) \<Rightarrow> (Some (Wrapped ''migrate start'' err), s1)
      | (None, s1) \<Rightarrow>
          (case migrateLoopEarlier ctxErr apply migrations s1 of
             (Some err, s2) \<Rightarrow> (Some err, s2)
           | (None, s2) \<Rightarrow>
               (case apply StatusEnd None s2 of
                  (Some err, s3) \<Rightarrow> (Some (Wrapped ''migrate end'' err), s3)
                | (None, s3) \<Rightarrow> (None, s3))))"

section \<open>The PostgreSQL driver (second part of \<^verbatim>\<open>src/muz_test.go\<close>)\<close>

text \<open>
  A row of the tracking table, with the columns \<^verbatim>\<open>version\<close>, \<^verbatim>\<open>directory\<close> and
  \<^verbatim>\<open>file_name\<close> (\<^verbatim>\<open>processed_at\<close> has a default and is never read). The storage
  holds the tracking table, absent before it is created, and
  the rest of the database \<open>'w\<close>, on which the content of a migration file acts
  through \<open>sqlExec\<close>; \<open>sqlExec\<close> does not touch the tracking table. A statement
  that fails leaves the storage as it was before the statement. The name of the
  table (\<^verbatim>\<open>TableName\<close>) plays no role: there is one tracking table.
\<close>

record row =
  versionCol :: int
  directoryCol :: string
  fileNameCol :: string

record 'w storage =
  tracking :: "row list option"
  world :: 'w

datatype 'w transaction = Active "'w storage" | Finished

record 'w PostgresDriver =
  DB :: "'w storage"
  tx :: "'w transaction option"

text \<open>
  \<^verbatim>\<open>BeginTx\<close>, the \<^verbatim>\<open>CREATE TABLE\<close> statement of \<^verbatim>\<open>Start\<close>, \<^verbatim>\<open>Commit\<close> and \<^verbatim>\<open>Rollback\<close>
  succeed or fail as the connection to the server decides. A \<open>connection\<close> gives,
  for one run, the error each of them returns, \<open>None\<close> when it succeeds; on
  \<open>reliable\<close> all four succeed.
\<close>

record connection =
  beginTxErr :: "error option"
  createTableErr :: "error option"
  commitErr :: "error option"
  rollbackErr :: "error option"

definition reliable :: connection where
  "reliable = \<lparr>beginTxErr = None, createTableErr = None, commitErr = None, rollbackErr = None\<rparr>"

text \<open>\<^verbatim>\<open>CREATE TABLE IF NOT EXISTS\<close>.\<close>

definition createTable :: "'w storage \<Rightarrow> 'w storage" where
  "createTable st = (case tracking st of None \<Rightarrow> st\<lparr>tracking := Some []\<rparr> | Some rows \<Rightarrow> st)"

text \<open>\<^verbatim>\<open>SELECT MAX(version) ... WHERE directory = $1\<close>: \<open>None\<close> is the SQL null of an empty selection.\<close>

definition maxVersion :: "row list \<Rightarrow> string \<Rightarrow> int option" where
  "maxVersion rows dir =
     fold (\<lambda>r acc. if directoryCol r = dir
                    then (case acc of None \<Rightarrow> Some (versionCol r) | Some v \<Rightarrow> Some (max v (versionCol r)))
                    else acc)
          rows None"

text \<open>
  The high-water mark of a directory: the value \<^verbatim>\<open>Process\<close> gives its variable
  \<^verbatim>\<open>version\<close> before the loop, 0 when nothing is recorded for the directory.
\<close>

definition highWater :: "row list \<Rightarrow> string \<Rightarrow> int" where
  "highWater rows dir = (case maxVersion rows dir of None \<Rightarrow> 0 | Some v \<Rightarrow> v)"

definition selectMax :: "'w storage \<Rightarrow> string \<Rightarrow> error + int option" where
  "selectMax st dir =
     (case tracking st of
        None \<Rightarrow> Inl (ErrExec ''relation does not exist'')
      | Some rows \<Rightarrow> Inr (maxVersion rows dir))"

text \<open>
  \<^verbatim>\<open>INSERT\<close> into the tracking table, which is \<^verbatim>\<open>UNIQUE(version, directory)\<close>. The
  column \<^verbatim>\<open>version\<close> is an \<^verbatim>\<open>integer\<close> of 32 bits: a value outside its range is
  refused.
\<close>

definition insertRow :: "row \<Rightarrow> 'w storage \<Rightarrow> error + 'w storage" where
  "insertRow r st =
     (case tracking st of
        None \<Rightarrow> Inl (ErrExec ''relation does not exist'')
      | Some rows \<Rightarrow>
          if versionCol r < - (2 ^ 31) \<or> 2 ^ 31 - 1 < versionCol r
          then Inl (ErrExec ''integer out of range'')
          else if list_ex (\<lambda>r'. versionCol r' = versionCol r \<and> directoryCol r' = directoryCol r) rows
          then Inl ErrUnique
          else Inr (st\<lparr>tracking := Some (rows @ [r])\<rparr>))"

text \<open>The loop of \<^verbatim>\<open>Process\<close> over \<^verbatim>\<open>data.Files\<close>; \<open>version\<close> is its local variable.\<close>

fun applyFiles ::
  "(string \<Rightarrow> 'w \<Rightarrow> error + 'w) \<Rightarrow> Muzo \<Rightarrow> string \<Rightarrow> FileInfo list \<Rightarrow> int \<Rightarrow> 'w storage
   \<Rightarrow> error option \<times> 'w storage" where
  "applyFiles sqlExec data dir [] version st = (None, st)"
| "applyFiles sqlExec data dir (file # rest) version st =
     (if Version file \<le> version then applyFiles sqlExec data dir rest version st
      else (case MuzoReadFile data (Path file) of
              Inl err \<Rightarrow> (Some err, st)
            | Inr content \<Rightarrow>
                (case sqlExec content (world st) of
                   Inl err \<Rightarrow> (Some (Wrapped (''applying migration '' @ Path file) err), st)
                 | Inr w \<Rightarrow>
                     (case insertRow \<lparr>versionCol = Version file, directoryCol = dir, fileNameCol = Path file\<rparr>
                             (st\<lparr>world := w\<rparr>) of
                        Inl err \<Rightarrow> (Some err, st\<lparr>world := w\<rparr>)
                      | Inr st1 \<Rightarrow> applyFiles sqlExec data dir rest (Version file) st1))))"

text \<open>\<^verbatim>\<open>Process\<close> inside the open transaction.\<close>

definition processTx ::
  "(string \<Rightarrow> 'w \<Rightarrow> error + 'w) \<Rightarrow> Muzo \<Rightarrow> 'w storage \<Rightarrow> error option \<times> 'w storage" where
  "processTx sqlExec data st =
     (let directory = Dir data in
      case selectMax st directory of
        Inl err \<Rightarrow> (Some err, st)
      | Inr latestVersion \<Rightarrow>
          applyFiles sqlExec data directory (Files data)
            (case latestVersion of None \<Rightarrow> 0 | Some v \<Rightarrow> v) st)"

text \<open>
  \<^verbatim>\<open>Start\<close>: \<^verbatim>\<open>BeginTx\<close> assigns \<^verbatim>\<open>p.tx\<close>, which is \<^verbatim>\<open>nil\<close> when it fails; then the
  tracking table is created inside the transaction.
\<close>

definition pgStart :: "connection \<Rightarrow> 'w PostgresDriver \<Rightarrow> error option \<times> 'w PostgresDriver" where
  "pgStart conn p =
     (case beginTxErr conn of
        Some err \<Rightarrow> (Some err, p\<lparr>tx := None\<rparr>)
      | None \<Rightarrow>
          (case createTableErr conn of
             Some err \<Rightarrow> (Some err, p\<lparr>tx := Some (Active (DB p))\<rparr>)
           | None \<Rightarrow> (None, p\<lparr>tx := Some (Active (createTable (DB p)))\<rparr>)))"

definition pgProcess ::
  "(string \<Rightarrow> 'w \<Rightarrow> error + 'w) \<Rightarrow> Muzo \<Rightarrow> 'w PostgresDriver \<Rightarrow> error option \<times> 'w PostgresDriver" where
  "pgProcess sqlExec data p =
     (case tx p of
        None \<Rightarrow> (Some NilPointer, p)
      | Some Finished \<Rightarrow> (Some ErrTxDone, p)
      | Some (Active st) \<Rightarrow>
          (case processTx sqlExec data st of
             (err, st1) \<Rightarrow> (err, p\<lparr>tx := Some (Active st1)\<rparr>)))"

text \<open>
  \<^verbatim>\<open>End\<close>: roll back when it is given an error, commit otherwise, and return
  the error of the rollback or of the commit. Only a commit that succeeds makes
  the work of the transaction the state of the database; after either call the
  transaction is finished. (In \<open>pgProcess\<close> above, a call on a nil transaction,
  which panics in Go, is the error \<open>NilPointer\<close>.)
\<close>

definition pgEnd :: "connection \<Rightarrow> error option \<Rightarrow> 'w PostgresDriver \<Rightarrow> error option \<times> 'w PostgresDriver" where
  "pgEnd conn err p =
     (case tx p of
        None \<Rightarrow> (None, p)
      | Some Finished \<Rightarrow> (Some ErrTxDone, p)
      | Some (Active st) \<Rightarrow>
          if err \<noteq> None then (rollbackErr conn, p\<lparr>tx := Some Finished\<rparr>)
          else (case commitErr conn of
                  Some e \<Rightarrow> (Some e, p\<lparr>tx := Some Finished\<rparr>)
                | None \<Rightarrow> (None, p\<lparr>DB := st, tx := Some Finished\<rparr>)))"

definition postgresDriver ::
  "connection \<Rightarrow> (string \<Rightarrow> 'w \<Rightarrow> error + 'w) \<Rightarrow> 'w PostgresDriver Driver" where
  "postgresDriver conn sqlExec =
     \<lparr>Start = pgStart conn, Process = pgProcess sqlExec, End = pgEnd conn\<rparr>"


section \<open>Drivers that record their calls\<close>

text \<open>
  An implementation of the driver interface that shows what the orchestrator
  calls: \<open>recordingDriver\<close> appends every call to a log, fails in \<^verbatim>\<open>Process\<close> for
  the directories of \<open>failing\<close> and returns \<open>endResult\<close> from \<^verbatim>\<open>End\<close>. The state
  also holds whether the context has been cancelled, which this driver never
  reads.
\<close>

datatype event = StartCalled | ProcessCalled string | EndCalled "error option"

record recorder =
  cancelled :: bool
  calls :: "event list"

definition recordingDriver :: "string list \<Rightarrow> error option \<Rightarrow> recorder Driver" where
  "recordingDriver failing endResult =
     \<lparr>Start = (\<lambda>s. (None, s\<lparr>calls := calls s @ [StartCalled]\<rparr>)),
      Process = (\<lambda>data s.
        (if Dir data \<in> set failing then Some (ErrExec (Dir data)) else None,
         s\<lparr>calls := calls s @ [ProcessCalled (Dir data)]\<rparr>)),
      End = (\<lambda>err s. (endResult, s\<lparr>calls := calls s @ [EndCalled err]\<rparr>))\<rparr>"

text \<open>The same for the earlier orchestrator's callback; the log holds the files applied.\<close>

definition recordingApply :: "status \<Rightarrow> string option \<Rightarrow> recorder \<Rightarrow> error option \<times> recorder" where
  "recordingApply st data s =
     (case st of
        StatusStart \<Rightarrow> (None, s\<lparr>calls := calls s @ [StartCalled]\<rparr>)
      | StatusProcess \<Rightarrow> (None, s\<lparr>calls := calls s @ [ProcessCalled (case data of None \<Rightarrow> [] | Some f \<Rightarrow> f)]\<rparr>)
      | StatusEnd \<Rightarrow> (None, s\<lparr>calls := calls s @ [EndCalled None]\<rparr>))"

definition ctxErrOf :: "recorder \<Rightarrow> error option" where
  "ctxErrOf s = (if cancelled s then Some Canceled else None)"

section \<open>Properties of the version extractor\<close>

lemma decimal_snoc: "decimal (ds @ [r]) = 10 * decimal ds + digitVal r"
  by (simp add: decimal_def)

lemma digitsValue_snoc: "digitsValue (ds @ [r]) = 10 * digitsValue ds + digitVal r"
proof -
  have "(\<Sum>i<length ds. digitVal ((ds @ [r]) ! i) * 10 ^ (length ds - i))
      = (\<Sum>i<length ds. 10 * (digitVal (ds ! i) * 10 ^ (length ds - 1 - i)))"
  proof (rule sum.cong)
    fix i assume "i \<in> {..<length ds}"
    then have i: "i < length ds" by simp
    then have "length ds - i = Suc (length ds - 1 - i)" by arith
    with i show "digitVal ((ds @ [r]) ! i) * 10 ^ (length ds - i)
        = 10 * (digitVal (ds ! i) * 10 ^ (length ds - 1 - i))"
      by (simp add: nth_append)
  qed simp
  then show ?thesis
    by (simp add: digitsValue_def sum_distrib_left)
qed

lemma decimal_digitsValue: "decimal ds = digitsValue ds"
proof (induction ds rule: rev_induct)
  case Nil
  show ?case by (simp add: decimal_def digitsValue_def)
next
  case (snoc r ds)
  then show ?case by (simp add: decimal_snoc digitsValue_snoc)
qed

lemma of_char_int: "(of_char r :: int) = int (of_char r)"
  by (simp add: of_nat_of_char)

lemma digitVal_nonneg: "isDigit r \<Longrightarrow> 0 \<le> digitVal r"
  by (simp add: isDigit_def digitVal_def less_eq_char_def of_char_int)

lemma decimal_nonneg: "list_all isDigit ds \<Longrightarrow> 0 \<le> decimal ds"
proof (induction ds rule: rev_induct)
  case Nil
  show ?case by (simp add: decimal_def)
next
  case (snoc r ds)
  then show ?case using digitVal_nonneg [of r] by (simp add: decimal_snoc)
qed

lemma takeWhile_all: "list_all P (takeWhile P xs)"
  by (induction xs) simp_all

lemma decimal_zeros: "decimal (replicate k (CHR ''0'') @ ds) = decimal ds"
proof -
  have "foldl (\<lambda>n r. 10 * n + digitVal r) 0 (replicate k (CHR ''0'')) = 0"
    by (induction k) (simp_all add: digitVal_def)
  then show ?thesis by (simp add: decimal_def)
qed

lemma extractLeadingNumber_fst:
  "fst (extractLeadingNumber name) =
     (let v = decimal (takeWhile isDigit name) in if v \<le> maxInt then v else 0)"
proof (cases "takeWhile isDigit name = []")
  case True
  then show ?thesis
    by (simp add: extractLeadingNumber_def decimal_def maxInt_def)
next
  case False
  then show ?thesis
    using takeWhile_all [of isDigit name]
    by (simp add: extractLeadingNumber_def Atoi_def Let_def)
qed

lemma extractLeadingNumber_range:
  "0 \<le> fst (extractLeadingNumber name) \<and> fst (extractLeadingNumber name) \<le> maxInt"
  using decimal_nonneg [OF takeWhile_all [of isDigit name]]
  by (simp add: extractLeadingNumber_fst Let_def maxInt_def)

lemma extractLeadingNumber_snd: "snd (extractLeadingNumber name) = name"
  by (simp add: extractLeadingNumber_def Let_def split: sum.splits)

lemma takeWhile_zeros:
  "takeWhile isDigit (replicate k (CHR ''0'') @ name) = replicate k (CHR ''0'') @ takeWhile isDigit name"
  by (induction k) (simp_all add: isDigit_def)

text \<open>
  Claim C9, as the code has it. The version \<^verbatim>\<open>extractLeadingNumber\<close> returns is the
  integer value of the longest leading run of ASCII digits when that value fits
  Go's \<^verbatim>\<open>int\<close> (at most \<open>2^63 - 1\<close>), and 0 when it does not; leading zeros do
  not change it; a name without a leading digit gives 0.
\<close>

theorem extractLeadingNumber_version:
  "fst (extractLeadingNumber name) =
     (if digitsValue (takeWhile isDigit name) \<le> maxInt
      then digitsValue (takeWhile isDigit name) else 0)
   \<and> fst (extractLeadingNumber (replicate k (CHR ''0'') @ name)) = fst (extractLeadingNumber name)
   \<and> (takeWhile isDigit name = [] \<longrightarrow> fst (extractLeadingNumber name) = 0)"
proof (intro conjI impI)
  show "fst (extractLeadingNumber name) =
     (if digitsValue (takeWhile isDigit name) \<le> maxInt
      then digitsValue (takeWhile isDigit name) else 0)"
    by (simp add: extractLeadingNumber_fst Let_def decimal_digitsValue)
  show "fst (extractLeadingNumber (replicate k (CHR ''0'') @ name)) = fst (extractLeadingNumber name)"
    by (simp add: extractLeadingNumber_fst takeWhile_zeros decimal_zeros)
  assume "takeWhile isDigit name = []"
  then show "fst (extractLeadingNumber name) = 0"
    by (simp add: extractLeadingNumber_def)
qed

theorem extractLeadingNumber_version_witness:
  "fst (extractLeadingNumber ''001_x'') = 1
   \<and> fst (extractLeadingNumber ''1_x'') = 1
   \<and> fst (extractLeadingNumber ''20240131_add_index.sql'') = 20240131
   \<and> takeWhile isDigit ''readme.txt'' = [] \<and> fst (extractLeadingNumber ''readme.txt'') = 0"
  using extractLeadingNumber_version [of "''1_x''" 2]
    extractLeadingNumber_version [of "''20240131_add_index.sql''" 0]
    extractLeadingNumber_version [of "''readme.txt''" 0]
  by (simp add: isDigit_def decimal_digitsValue [symmetric] decimal_def digitVal_def maxInt_def
      numeral_2_eq_2)

text \<open>
  Claim C9 as the spec states it fails for a digit run beyond the range of
  \<^verbatim>\<open>int\<close>: \<^verbatim>\<open>strconv.Atoi\<close> reports a range error and the version is 0, not
  the value of the run.
\<close>

theorem extractLeadingNumber_overflow_counterexample:
  "takeWhile isDigit ''9223372036854775808_x.sql'' = ''9223372036854775808''
   \<and> digitsValue ''9223372036854775808'' = 9223372036854775808
   \<and> fst (extractLeadingNumber ''9223372036854775808_x.sql'') = 0"
  by (simp add: extractLeadingNumber_fst isDigit_def decimal_digitsValue [symmetric] decimal_def
      digitVal_def maxInt_def)

section \<open>Sorting: the model of slices.SortFunc\<close>

lemma mset_insertFunc: "mset (insertFunc cmp x ys) = add_mset x (mset ys)"
  by (induction ys) simp_all

lemma mset_SortFunc: "mset (SortFunc cmp xs) = mset xs"
  by (induction xs) (simp_all add: SortFunc_def mset_insertFunc)

lemma set_SortFunc: "set (SortFunc cmp xs) = set xs"
  using mset_SortFunc [of cmp xs] by (metis set_mset_mset)

lemma set_insertFunc: "set (insertFunc cmp x ys) = insert x (set ys)"
  using mset_insertFunc [of cmp x ys] by (metis set_mset_mset set_mset_add_mset_insert)

lemma sorted_insertFunc:
  assumes total: "\<And>a b. cmp a b < 0 \<or> cmp b a \<le> 0"
    and trans: "\<And>a b c. cmp a b \<le> 0 \<Longrightarrow> cmp b c \<le> 0 \<Longrightarrow> cmp a c \<le> 0"
  shows "sorted_wrt (\<lambda>a b. cmp a b \<le> 0) ys \<Longrightarrow> sorted_wrt (\<lambda>a b. cmp a b \<le> 0) (insertFunc cmp x ys)"
proof (induction ys)
  case Nil
  show ?case by simp
next
  case (Cons y ys)
  show ?case
  proof (cases "cmp x y < 0")
    case True
    then have xy: "cmp x y \<le> 0" by simp
    have "\<forall>z\<in>set ys. cmp x z \<le> 0"
      using Cons.prems xy trans by auto
    with True xy Cons.prems show ?thesis by simp
  next
    case False
    then have yx: "cmp y x \<le> 0" using total [of x y] by simp
    from Cons have "sorted_wrt (\<lambda>a b. cmp a b \<le> 0) (insertFunc cmp x ys)" by simp
    with False yx Cons.prems show ?thesis by (simp add: set_insertFunc)
  qed
qed

lemma sorted_SortFunc:
  assumes total: "\<And>a b. cmp a b < 0 \<or> cmp b a \<le> 0"
    and trans: "\<And>a b c. cmp a b \<le> 0 \<Longrightarrow> cmp b c \<le> 0 \<Longrightarrow> cmp a c \<le> 0"
  shows "sorted_wrt (\<lambda>a b. cmp a b \<le> 0) (SortFunc cmp xs)"
proof (induction xs)
  case Nil
  show ?case by (simp add: SortFunc_def)
next
  case (Cons x xs)
  have "SortFunc cmp (x # xs) = insertFunc cmp x (SortFunc cmp xs)"
    by (simp add: SortFunc_def)
  with Cons sorted_insertFunc [of cmp "SortFunc cmp xs" x, OF total trans] show ?case by simp
qed



section \<open>The order of the files of a set\<close>

lemma wrap64_small: "- (2 ^ 63) \<le> x \<Longrightarrow> x < 2 ^ 63 \<Longrightarrow> wrap64 x = x"
  by (simp add: wrap64_def)

lemma wrap64_diff:
  assumes "0 \<le> a" "a \<le> maxInt" "0 \<le> b" "b \<le> maxInt"
  shows "wrap64 (a - b) = a - b"
  using assms by (intro wrap64_small) (simp_all add: maxInt_def)

lemma fileCmp_alt:
  "fileCmp a b =
     (if fst (extractLeadingNumber (Base (Path a))) \<noteq> fst (extractLeadingNumber (Base (Path b)))
      then fst (extractLeadingNumber (Base (Path a))) - fst (extractLeadingNumber (Base (Path b)))
      else Compare (Base (Path a)) (Base (Path b)))"
proof -
  have "wrap64 (fst (extractLeadingNumber (Base (Path a))) - fst (extractLeadingNumber (Base (Path b))))
      = fst (extractLeadingNumber (Base (Path a))) - fst (extractLeadingNumber (Base (Path b)))"
    using extractLeadingNumber_range by (intro wrap64_diff) simp_all
  then show ?thesis
    unfolding fileCmp_def
    by (simp add: Let_def split_beta extractLeadingNumber_snd)
qed

lemma fileCmp_total: "fileCmp a b < 0 \<or> fileCmp b a \<le> 0"
  by (auto simp: fileCmp_alt Compare_def)

lemma fileCmp_trans: "fileCmp a b \<le> 0 \<Longrightarrow> fileCmp b c \<le> 0 \<Longrightarrow> fileCmp a c \<le> 0"
  by (auto simp: fileCmp_alt Compare_def split: if_splits)

lemma Base_validName: "validName n \<Longrightarrow> Base n = n"
proof -
  assume v: "validName n"
  then have ne: "n \<noteq> []" and ns: "CHR ''/'' \<notin> set n" by (simp_all add: validName_def)
  from ne ns have d: "dropWhile (\<lambda>c. c = CHR ''/'') (rev n) = rev n"
    by (cases "rev n") auto
  from ns have t: "takeWhile (\<lambda>c. c \<noteq> CHR ''/'') (rev n) = rev n"
    by (simp add: takeWhile_eq_all_conv) auto
  show ?thesis using ne by (simp add: Base_def Let_def d t)
qed

lemma wfEntries_map_of: "wfEntries es \<Longrightarrow> map_of es seg = Some d \<Longrightarrow> wfNode d"
  by (induction es) (auto split: if_splits)

lemma wfNode_lookupNode: "wfNode d \<Longrightarrow> lookupNode d segs = Some d' \<Longrightarrow> wfNode d'"
proof (induction d segs rule: lookupNode.induct)
  case (2 entries seg segs)
  then show ?case by (auto split: option.splits dest: wfEntries_map_of)
qed simp_all

lemma wfNode_openPath: "wfNode fileSystem \<Longrightarrow> openPath fileSystem name = Some d \<Longrightarrow> wfNode d"
  by (auto simp: openPath_def split: if_splits dest: wfNode_lookupNode)

lemma wfEntries_ReadDir: "wfNode fileSystem \<Longrightarrow> ReadDir fileSystem name = Inr es \<Longrightarrow> wfEntries es"
  by (auto simp: ReadDir_def split: option.splits node.splits dest: wfNode_openPath)

lemma collectFiles_elem:
  "f \<in> set (collectFiles lower match m dir es) \<Longrightarrow> wfEntries es \<Longrightarrow>
     validName (Path f) \<and> Version f = fst (extractLeadingNumber (Path f)) \<and> 0 < Version f"
proof (induction es)
  case Nil
  then show ?case by simp
next
  case (Cons e es)
  then show ?case by (cases e) (auto simp: Let_def split: if_splits)
qed

lemma getMigrationFiles_sorted:
  assumes wf: "wfNode fileSystem" and files: "getMigrationFiles lower match m fileSystem dir = Inr files"
  shows "sorted_wrt (\<lambda>a b. Version a < Version b \<or> (Version a = Version b \<and> Path a \<le> Path b)) files"
proof -
  from files obtain es where es: "ReadDir fileSystem dir = Inr es"
    and fs: "files = SortFunc fileCmp (collectFiles lower match m dir es)"
    by (auto simp: getMigrationFiles_def sortMigrationFiles_def split: sum.splits)
  have wfes: "wfEntries es" by (rule wfEntries_ReadDir [OF wf es])
  have sorted: "sorted_wrt (\<lambda>a b. fileCmp a b \<le> 0) files"
    unfolding fs using fileCmp_total fileCmp_trans by (rule sorted_SortFunc)
  have elem: "\<And>f. f \<in> set files \<Longrightarrow> Base (Path f) = Path f \<and> Version f = fst (extractLeadingNumber (Path f))"
    using collectFiles_elem [OF _ wfes] by (auto simp: fs set_SortFunc Base_validName)
  show ?thesis
  proof (rule sorted_wrt_mono_rel [OF _ sorted])
    fix a b assume "a \<in> set files" "b \<in> set files" "fileCmp a b \<le> 0"
    then show "Version a < Version b \<or> (Version a = Version b \<and> Path a \<le> Path b)"
      using elem [of a] elem [of b]
      by (auto simp: fileCmp_alt Compare_def split: if_splits)
  qed
qed

text \<open>
  Claim C8. In every set that discovery yields, the files are in ascending order
  of the pair (version, file name): a smaller version comes first, and files of
  the same version are in the byte-wise lexical order of their names. The file
  system is any tree whose entry names are path elements.
\<close>

theorem yielded_files_sorted:
  assumes wf: "wfNode fileSystem"
    and yielded: "Inr mz \<in> set (iterMigrationInfo lower match m (Inr fileSystem))"
  shows "sorted_wrt (\<lambda>a b. Version a < Version b \<or> (Version a = Version b \<and> Path a \<le> Path b))
           (Files mz)"
proof -
  from yielded obtain dir where "getMigrationFiles lower match m fileSystem dir = Inr (Files mz)"
    by (auto simp: iterMigrationInfo_def split: sum.splits)
  with wf show ?thesis by (rule getMigrationFiles_sorted)
qed

theorem yielded_files_sorted_witness:
  "wfNode (DirNode [(''migrations'', DirNode
       [(''001_zebra.sql'', FileNode ''z''), (''10_tenth.sql'', FileNode ''t''),
        (''001_alpha.sql'', FileNode ''a''), (''2_second.sql'', FileNode ''s'')])])
   \<and> Inr \<lparr>Dir = ''migrations'',
          Files = [\<lparr>Path = ''001_alpha.sql'', Version = 1\<rparr>, \<lparr>Path = ''001_zebra.sql'', Version = 1\<rparr>,
                   \<lparr>Path = ''2_second.sql'', Version = 2\<rparr>, \<lparr>Path = ''10_tenth.sql'', Version = 10\<rparr>],
          fs = DirNode [(''migrations'', DirNode
       [(''001_zebra.sql'', FileNode ''z''), (''10_tenth.sql'', FileNode ''t''),
        (''001_alpha.sql'', FileNode ''a''), (''2_second.sql'', FileNode ''s'')])]\<rparr>
      \<in> set (iterMigrationInfo id globMatch \<lparr>Order = [], Skip = [], Extension = []\<rparr>
          (Inr (DirNode [(''migrations'', DirNode
       [(''001_zebra.sql'', FileNode ''z''), (''10_tenth.sql'', FileNode ''t''),
        (''001_alpha.sql'', FileNode ''a''), (''2_second.sql'', FileNode ''s'')])])))
   \<and> sorted_wrt (\<lambda>a b. Version a < Version b \<or> (Version a = Version b \<and> Path a \<le> Path b))
        [\<lparr>Path = ''001_alpha.sql'', Version = 1\<rparr>, \<lparr>Path = ''001_zebra.sql'', Version = 1\<rparr>,
         \<lparr>Path = ''2_second.sql'', Version = 2\<rparr>, \<lparr>Path = ''10_tenth.sql'', Version = 10\<rparr>]"
proof -
  let ?fs = "DirNode [(''migrations'', DirNode
       [(''001_zebra.sql'', FileNode ''z''), (''10_tenth.sql'', FileNode ''t''),
        (''001_alpha.sql'', FileNode ''a''), (''2_second.sql'', FileNode ''s'')])]"
  let ?mz = "\<lparr>Dir = ''migrations'',
          Files = [\<lparr>Path = ''001_alpha.sql'', Version = 1\<rparr>, \<lparr>Path = ''001_zebra.sql'', Version = 1\<rparr>,
                   \<lparr>Path = ''2_second.sql'', Version = 2\<rparr>, \<lparr>Path = ''10_tenth.sql'', Version = 10\<rparr>],
          fs = ?fs\<rparr>"
  have a: "wfNode ?fs" by code_simp
  have b: "Inr ?mz \<in> set (iterMigrationInfo id globMatch \<lparr>Order = [], Skip = [], Extension = []\<rparr> (Inr ?fs))"
    by code_simp
  from yielded_files_sorted [OF a b] a b show ?thesis by simp
qed

section \<open>The order of the directories\<close>














section \<open>The walk and the subtree skip\<close>

lemma dirsCallback_File [simp]:
  "dirsCallback match m p (FileNode c) None acc = (Continue, acc)"
  by (simp add: dirsCallback_def)

lemma walkDir_File:
  "walkDir (dirsCallback match m) p (FileNode c) acc = (Continue, acc)"
  by simp

lemma walkDir_Dir:
  "walkDir (dirsCallback match m) p (DirNode es) acc =
     (if shouldSkipDir m p then (Continue, acc)
      else walkEntries (dirsCallback match m) p es (if shouldSkip match m p then acc else acc @ [p]))"
  by (simp add: dirsCallback_def)

lemma walkDir_Unreadable:
  "walkDir (dirsCallback match m) p Unreadable acc =
     (if shouldSkipDir m p then (Continue, acc)
      else (Fail ErrReadDir, if shouldSkip match m p then acc else acc @ [p]))"
  by (simp add: dirsCallback_def)

lemma beneath_child:
  assumes nu: "\<not> beneath D p" and v: "validName n" and u: "beneath D (Join p n)"
  shows "Join p n = D"
proof (rule ccontr)
  assume ne: "Join p n \<noteq> D"
  from nu have D: "D \<noteq> ''.''" and pD: "p \<noteq> D" and np: "\<not> prefix (D @ ''/'') p"
    by (simp_all add: beneath_def)
  from v have ns: "CHR ''/'' \<notin> set n" by (simp add: validName_def)
  from u D ne have pre: "prefix (D @ ''/'') (Join p n)" by (simp add: beneath_def)
  show False
  proof (cases "p = ''.''")
    case True
    with pre have "prefix (D @ ''/'') n" by (simp add: Join_def)
    then have "CHR ''/'' \<in> set n" by (auto simp: prefix_def)
    with ns show False by simp
  next
    case False
    with pre have "prefix (D @ ''/'') (p @ ''/'' @ n)" by (simp add: Join_def)
    with np obtain us where us: "D @ ''/'' = p @ us" and pu: "prefix us (''/'' @ n)"
      by (auto simp: prefix_append)
    show False
    proof (cases us)
      case Nil
      with us np show False by simp
    next
      case (Cons c us')
      with pu have c: "c = CHR ''/''" and pu': "prefix us' n" by simp_all
      show False
      proof (cases "us' = []")
        case True
        with us Cons c pD show False by simp
      next
        case False
        from us Cons c have "D @ ''/'' = (p @ ''/'') @ us'" by simp
        with False have "last us' = CHR ''/''" by (metis last_appendR last_snoc)
        with False have "CHR ''/'' \<in> set us'" by (metis last_in_set)
        with pu' ns show False by (auto simp: prefix_def)
      qed
    qed
  qed
qed


lemma walk_pruned:
  assumes skipD: "shouldSkipDir m D"
  shows "wfNode d \<Longrightarrow> (beneath D p \<longrightarrow> shouldSkipDir m p) \<Longrightarrow>
           walkDir (dirsCallback match m) p d acc = (r, acc') \<Longrightarrow>
           \<forall>q\<in>set acc'. q \<in> set acc \<or> \<not> beneath D q"
    and "wfEntries es \<Longrightarrow> \<not> beneath D p \<Longrightarrow>
           walkEntries (dirsCallback match m) p es acc = (r, acc') \<Longrightarrow>
           \<forall>q\<in>set acc'. q \<in> set acc \<or> \<not> beneath D q"
proof (induction d and es arbitrary: p acc r acc' and p acc r acc' rule: wfNode_wfEntries.induct)
  case (1 content)
  then show ?case by simp
next
  case 2
  then show ?case by (auto simp: walkDir_Unreadable simp del: walkDir.simps split: if_splits)
next
  case (3 entries)
  show ?case
  proof (cases "shouldSkipDir m p")
    case True
    with "3.prems" show ?thesis by (simp add: walkDir_Dir del: walkDir.simps)
  next
    case False
    with "3.prems" have nu: "\<not> beneath D p" by blast
    let ?acc1 = "if shouldSkip match m p then acc else acc @ [p]"
    from False "3.prems" have "walkEntries (dirsCallback match m) p entries ?acc1 = (r, acc')"
      by (simp add: walkDir_Dir del: walkDir.simps)
    with "3.IH" [of p ?acc1 r acc'] "3.prems" nu
    have "\<forall>q\<in>set acc'. q \<in> set ?acc1 \<or> \<not> beneath D q" by simp
    with nu show ?thesis by (auto split: if_splits)
  qed
next
  case 4
  then show ?case by simp
next
  case (5 n d rest)
  from "5.prems" have v: "validName n" and wd: "wfNode d" and wr: "wfEntries rest" by simp_all
  have child: "beneath D (Join p n) \<longrightarrow> shouldSkipDir m (Join p n)"
    using beneath_child [OF "5.prems"(2) v] skipD by auto
  obtain r1 acc1 where w1: "walkDir (dirsCallback match m) (Join p n) d acc = (r1, acc1)"
    by (cases "walkDir (dirsCallback match m) (Join p n) d acc")
  from "5.IH"(1) [OF wd child w1] have a1: "\<forall>q\<in>set acc1. q \<in> set acc \<or> \<not> beneath D q" .
  show ?case
  proof (cases r1)
    case Continue
    with "5.prems" w1 have "walkEntries (dirsCallback match m) p rest acc1 = (r, acc')" by simp
    from "5.IH"(2) [OF wr "5.prems"(2) this] a1 show ?thesis by blast
  next
    case SkipDir
    with "5.prems" w1 a1 show ?thesis by simp
  next
    case (Fail e)
    with "5.prems" w1 a1 show ?thesis by simp
  qed
qed

lemma shouldSkipDirLoop_pattern:
  "s \<in> set skips \<Longrightarrow> TrimPrefix s ''/'' = D \<or> TrimPrefix s ''/'' = D @ ''/**'' \<Longrightarrow>
     shouldSkipDirLoop D skips"
  by (induction skips) (auto simp: Let_def HasSuffix_def TrimSuffix_def suffix_def)

lemma getMigrationDirs_pruned:
  assumes wf: "wfNode fileSystem" and skipD: "shouldSkipDir m D"
    and dirs: "getMigrationDirs match m fileSystem = Inr dirs"
  shows "\<forall>q\<in>set dirs. \<not> beneath D q"
proof -
  from dirs obtain r where w: "walkDir (dirsCallback match m) ''.'' fileSystem [] = (r, dirs)"
    by (auto simp: getMigrationDirs_def WalkDir_def split: prod.splits walkErr.splits)
  have "\<not> prefix (D @ ''/'') ''.''"
    by (cases D) simp_all
  then have root: "beneath D ''.'' \<longrightarrow> shouldSkipDir m ''.''"
    using skipD by (auto simp: beneath_def)
  from walk_pruned(1) [OF skipD wf root w] show ?thesis by simp
qed


lemma set_sortDirs: "set (sortDirs m dirs) = set dirs"
  by (simp add: sortDirs_def set_SortFunc)

lemma yielded_Dir:
  assumes "Inr mz \<in> set (iterMigrationInfo lower match m (Inr fileSystem))"
  shows "\<exists>dirs. getMigrationDirs match m fileSystem = Inr dirs \<and> Dir mz \<in> set dirs
           \<and> getMigrationFiles lower match m fileSystem (Dir mz) = Inr (Files mz)"
  using assms by (auto simp: iterMigrationInfo_def set_sortDirs split: sum.splits)

text \<open>
  Claim C5. Let a skip pattern, read without a leading slash, be the directory
  path \<open>d\<close> itself or \<open>d\<close> followed by \<^verbatim>\<open>/**\<close>. Then discovery yields no set for \<open>d\<close> or
  for a directory beneath \<open>d\<close> (so no file beneath \<open>d\<close> is in any set), and the walk
  does not enter \<open>d\<close>: whatever lies at \<open>d\<close>, the walk returns from it at once,
  without an error and with the list of directories as it was. The file system
  is any tree whose entry names are path elements.
\<close>

theorem subtree_skip_prunes:
  assumes wf: "wfNode fileSystem"
    and s: "s \<in> set (Skip m)"
    and pattern: "TrimPrefix s ''/'' = d \<or> TrimPrefix s ''/'' = d @ ''/**''"
  shows "(\<forall>x\<in>set (iterMigrationInfo lower match m (Inr fileSystem)).
            \<forall>mz. x = Inr mz \<longrightarrow> \<not> beneath d (Dir mz))
         \<and> (\<forall>subtree dirs. walkDir (dirsCallback match m) d subtree dirs = (Continue, dirs))"
proof -
  have skipD: "shouldSkipDir m d"
    unfolding shouldSkipDir_def using s pattern by (rule shouldSkipDirLoop_pattern)
  have "\<not> beneath d (Dir mz)" if "Inr mz \<in> set (iterMigrationInfo lower match m (Inr fileSystem))" for mz
  proof -
    from yielded_Dir [OF that] obtain dirs
      where "getMigrationDirs match m fileSystem = Inr dirs" and "Dir mz \<in> set dirs" by blast
    with getMigrationDirs_pruned [OF wf skipD] show ?thesis by blast
  qed
  moreover have "walkDir (dirsCallback match m) d subtree dirs = (Continue, dirs)" for subtree dirs
    using skipD
    by (cases subtree) (simp_all add: walkDir_File walkDir_Dir walkDir_Unreadable del: walkDir.simps)
  ultimately show ?thesis by blast
qed

theorem subtree_skip_prunes_witness:
  "wfNode (DirNode [(''keep'', DirNode [(''001_keep.sql'', FileNode ''k'')]),
                    (''test'', DirNode [(''001_test.sql'', FileNode ''t''),
                                        (''child'', DirNode [(''001_child.sql'', FileNode ''c'')])])])
   \<and> ''/test/**'' \<in> set (Skip \<lparr>Order = [], Skip = [''/test/**''], Extension = []\<rparr>)
   \<and> TrimPrefix ''/test/**'' ''/'' = ''test'' @ ''/**''
   \<and> Inr \<lparr>Dir = ''keep'', Files = [\<lparr>Path = ''001_keep.sql'', Version = 1\<rparr>],
          fs = DirNode [(''keep'', DirNode [(''001_keep.sql'', FileNode ''k'')]),
                    (''test'', DirNode [(''001_test.sql'', FileNode ''t''),
                                        (''child'', DirNode [(''001_child.sql'', FileNode ''c'')])])]\<rparr>
       \<in> set (iterMigrationInfo id globMatch \<lparr>Order = [], Skip = [''/test/**''], Extension = []\<rparr>
           (Inr (DirNode [(''keep'', DirNode [(''001_keep.sql'', FileNode ''k'')]),
                    (''test'', DirNode [(''001_test.sql'', FileNode ''t''),
                                        (''child'', DirNode [(''001_child.sql'', FileNode ''c'')])])])))
   \<and> \<not> beneath ''test'' ''keep''
   \<and> walkDir (dirsCallback globMatch \<lparr>Order = [], Skip = [''/test/**''], Extension = []\<rparr>) ''test''
        (DirNode [(''001_test.sql'', FileNode ''t''), (''child'', Unreadable)]) [''.'', ''keep'']
      = (Continue, [''.'', ''keep''])"
proof -
  let ?fs = "DirNode [(''keep'', DirNode [(''001_keep.sql'', FileNode ''k'')]),
                    (''test'', DirNode [(''001_test.sql'', FileNode ''t''),
                                        (''child'', DirNode [(''001_child.sql'', FileNode ''c'')])])]"
  let ?m = "\<lparr>Order = [], Skip = [''/test/**''], Extension = []\<rparr>"
  let ?mz = "\<lparr>Dir = ''keep'', Files = [\<lparr>Path = ''001_keep.sql'', Version = 1\<rparr>], fs = ?fs\<rparr>"
  have a: "wfNode ?fs" by code_simp
  have b: "''/test/**'' \<in> set (Skip ?m)" by simp
  have c: "TrimPrefix ''/test/**'' ''/'' = ''test'' @ ''/**''" by code_simp
  have d: "Inr ?mz \<in> set (iterMigrationInfo id globMatch ?m (Inr ?fs))" by code_simp
  from c have c': "TrimPrefix ''/test/**'' ''/'' = ''test'' \<or> TrimPrefix ''/test/**'' ''/'' = ''test'' @ ''/**''"
    by simp
  note t = subtree_skip_prunes [where match = globMatch and lower = id, OF a b c']
  from t d have "\<not> beneath ''test'' (Dir ?mz)" by blast
  then have e: "\<not> beneath ''test'' ''keep''" by simp
  from t have f: "walkDir (dirsCallback globMatch ?m) ''test''
        (DirNode [(''001_test.sql'', FileNode ''t''), (''child'', Unreadable)]) [''.'', ''keep'']
      = (Continue, [''.'', ''keep''])" by blast
  show ?thesis by (intro conjI) (fact a b c d e f)+
qed

section \<open>The single-star skip\<close>

subsection \<open>Paths and patterns\<close>

lemma splitPath_nonempty [simp]: "splitPath p \<noteq> []"
  by (induction p) (auto split: list.splits)

lemma splitPath_nonempty' [simp]: "[] \<noteq> splitPath p"
  using splitPath_nonempty [of p] by metis












subsection \<open>The walk with and without the pattern\<close>











lemma beneath_Join: "beneath p (Join p n)"
  by (simp add: beneath_def Join_def)
















section \<open>The PostgreSQL driver: high-water marks\<close>

lemma maxVersion_snoc:
  "maxVersion (rows @ [r]) dir =
     (if directoryCol r = dir
      then (case maxVersion rows dir of None \<Rightarrow> Some (versionCol r) | Some v \<Rightarrow> Some (max v (versionCol r)))
      else maxVersion rows dir)"
  by (simp add: maxVersion_def)

lemma highWater_snoc_other: "directoryCol r \<noteq> dir \<Longrightarrow> highWater (rows @ [r]) dir = highWater rows dir"
  by (simp add: highWater_def maxVersion_snoc)

lemma highWater_snoc_new:
  "directoryCol r = dir \<Longrightarrow> highWater rows dir < versionCol r \<Longrightarrow> highWater (rows @ [r]) dir = versionCol r"
  by (auto simp: highWater_def maxVersion_snoc split: option.splits)

lemma highWater_snoc_mono:
  "directoryCol r = dir \<Longrightarrow> highWater rows dir < versionCol r \<Longrightarrow> highWater rows d' \<le> highWater (rows @ [r]) d'"
  by (cases "d' = dir") (simp_all add: highWater_snoc_new highWater_snoc_other)

lemma insertRow_Inr:
  "insertRow r st = Inr st1 \<Longrightarrow> \<exists>rows. tracking st = Some rows \<and> st1 = st\<lparr>tracking := Some (rows @ [r])\<rparr>"
  by (auto simp: insertRow_def split: option.splits if_splits)

lemma applyFiles_skip_all:
  "\<forall>f\<in>set files. Version f \<le> v \<Longrightarrow> applyFiles sqlExec data dir files v st = (None, st)"
  by (induction files) simp_all

lemma applyFiles_success:
  "applyFiles sqlExec data dir files v st = (None, st') \<Longrightarrow> tracking st = Some rows \<Longrightarrow>
   v = highWater rows dir \<Longrightarrow>
   \<exists>rows'. tracking st' = Some rows' \<and> (\<forall>f\<in>set files. Version f \<le> highWater rows' dir)
      \<and> (\<forall>d'. highWater rows d' \<le> highWater rows' d')"
proof (induction files arbitrary: v st rows)
  case Nil
  then show ?case by simp
next
  case (Cons f files)
  show ?case
  proof (cases "Version f \<le> v")
    case True
    with Cons.prems have "applyFiles sqlExec data dir files v st = (None, st')" by simp
    from Cons.IH [OF this Cons.prems(2,3)] obtain rows' where
      r: "tracking st' = Some rows'" "\<forall>f\<in>set files. Version f \<le> highWater rows' dir"
         "\<forall>d'. highWater rows d' \<le> highWater rows' d'" by blast
    from True Cons.prems(3) r(3) have "Version f \<le> highWater rows' dir" by (meson order_trans)
    with r show ?thesis by auto
  next
    case False
    let ?r = "\<lparr>versionCol = Version f, directoryCol = dir, fileNameCol = Path f\<rparr>"
    from False Cons.prems(1) obtain content w st1 where
      ins: "insertRow ?r (st\<lparr>world := w\<rparr>) = Inr st1"
      and rest: "applyFiles sqlExec data dir files (Version f) st1 = (None, st')"
      by (auto split: sum.splits)
    from insertRow_Inr [OF ins] Cons.prems(2) have t1: "tracking st1 = Some (rows @ [?r])" by auto
    from False Cons.prems(3) have lt: "highWater rows dir < versionCol ?r" by simp
    have v1: "Version f = highWater (rows @ [?r]) dir"
      using highWater_snoc_new [of ?r dir rows] lt by simp
    from Cons.IH [OF rest t1 v1] obtain rows' where
      r: "tracking st' = Some rows'" "\<forall>f\<in>set files. Version f \<le> highWater rows' dir"
         "\<forall>d'. highWater (rows @ [?r]) d' \<le> highWater rows' d'" by blast
    have mono: "\<forall>d'. highWater rows d' \<le> highWater rows' d'"
    proof
      fix d'
      have "highWater rows d' \<le> highWater (rows @ [?r]) d'"
        using highWater_snoc_mono [of ?r dir rows d'] lt by simp
      with r(3) show "highWater rows d' \<le> highWater rows' d'" by (meson order_trans)
    qed
    from r(3) have "highWater (rows @ [?r]) dir \<le> highWater rows' dir" by blast
    then have "Version f \<le> highWater rows' dir" by (simp only: v1 [symmetric])
    with r mono show ?thesis by auto
  qed
qed

lemma processTx_success:
  assumes "processTx sqlExec data st = (None, st')"
  shows "\<exists>rows rows'. tracking st = Some rows \<and> tracking st' = Some rows'
      \<and> (\<forall>f\<in>set (Files data). Version f \<le> highWater rows' (Dir data))
      \<and> (\<forall>d'. highWater rows d' \<le> highWater rows' d')"
proof -
  from assms obtain rows where rows: "tracking st = Some rows"
    by (cases "tracking st") (auto simp: processTx_def selectMax_def Let_def)
  with assms have "applyFiles sqlExec data (Dir data) (Files data) (highWater rows (Dir data)) st = (None, st')"
    by (simp add: processTx_def selectMax_def highWater_def Let_def)
  from applyFiles_success [OF this rows refl] rows show ?thesis by blast
qed

lemma processTx_nothing:
  assumes "tracking st = Some rows" and "\<forall>f\<in>set (Files data). Version f \<le> highWater rows (Dir data)"
  shows "processTx sqlExec data st = (None, st)"
  using assms by (simp add: processTx_def selectMax_def Let_def highWater_def [symmetric] applyFiles_skip_all)

lemma pgProcess_Active:
  "tx p = Some (Active st) \<Longrightarrow>
     Process (postgresDriver conn sqlExec) data p =
       (fst (processTx sqlExec data st), p\<lparr>tx := Some (Active (snd (processTx sqlExec data st)))\<rparr>)"
  by (simp add: postgresDriver_def pgProcess_def split_beta)

lemma migrateLoop_pg_success:
  "migrateLoop (postgresDriver conn sqlExec) items p = (None, p') \<Longrightarrow>
   tx p = Some (Active st) \<Longrightarrow> tracking st = Some rows \<Longrightarrow>
   \<exists>st' rows'. p' = p\<lparr>tx := Some (Active st')\<rparr> \<and> tracking st' = Some rows'
      \<and> (\<forall>x\<in>set items. \<exists>mz. x = Inr mz \<and> (\<forall>f\<in>set (Files mz). Version f \<le> highWater rows' (Dir mz)))
      \<and> (\<forall>d'. highWater rows d' \<le> highWater rows' d')"
proof (induction items arbitrary: p st rows)
  case Nil
  then have "p' = p\<lparr>tx := Some (Active st)\<rparr>" by simp
  with Nil show ?case by auto
next
  case (Cons x items)
  from Cons.prems(1) obtain mz where x: "x = Inr mz" by (cases x) simp_all
  let ?st1 = "snd (processTx sqlExec mz st)"
  let ?p1 = "p\<lparr>tx := Some (Active ?st1)\<rparr>"
  from Cons.prems(1,2) x have ok: "fst (processTx sqlExec mz st) = None"
    and rest: "migrateLoop (postgresDriver conn sqlExec) items ?p1 = (None, p')"
    by (auto simp: pgProcess_Active split: option.splits)
  from ok have "processTx sqlExec mz st = (None, ?st1)" by (simp add: prod_eq_iff)
  from processTx_success [OF this] Cons.prems(3) obtain rows1 where
    r1: "tracking ?st1 = Some rows1" "\<forall>f\<in>set (Files mz). Version f \<le> highWater rows1 (Dir mz)"
        "\<forall>d'. highWater rows d' \<le> highWater rows1 d'" by auto
  have "tx ?p1 = Some (Active ?st1)" by simp
  from Cons.IH [OF rest this r1(1)] obtain st' rows' where
    r: "p' = ?p1\<lparr>tx := Some (Active st')\<rparr>" "tracking st' = Some rows'"
       "\<forall>x\<in>set items. \<exists>mz. x = Inr mz \<and> (\<forall>f\<in>set (Files mz). Version f \<le> highWater rows' (Dir mz))"
       "\<forall>d'. highWater rows1 d' \<le> highWater rows' d'" by blast
  have mono: "\<forall>d'. highWater rows d' \<le> highWater rows' d'"
    using r1(3) r(4) by (meson order_trans)
  have "\<forall>f\<in>set (Files mz). Version f \<le> highWater rows' (Dir mz)"
    using r1(2) r(4) by (meson order_trans)
  with x r mono show ?case by auto
qed

lemma migrateLoop_pg_nothing:
  "tx p = Some (Active st) \<Longrightarrow> tracking st = Some rows \<Longrightarrow>
   \<forall>x\<in>set items. \<exists>mz. x = Inr mz \<and> (\<forall>f\<in>set (Files mz). Version f \<le> highWater rows (Dir mz)) \<Longrightarrow>
   migrateLoop (postgresDriver conn sqlExec) items p = (None, p)"
proof (induction items)
  case Nil
  show ?case by simp
next
  case (Cons x items)
  from Cons.prems(3) obtain mz where x: "x = Inr mz"
    and le: "\<forall>f\<in>set (Files mz). Version f \<le> highWater rows (Dir mz)" by auto
  have "processTx sqlExec mz st = (None, st)"
    using Cons.prems(2) le by (rule processTx_nothing)
  with Cons.prems(1) have "Process (postgresDriver conn sqlExec) mz p = (None, p)"
    by (simp add: pgProcess_Active)
  with Cons x show ?case by simp
qed

lemma createTable_Some: "\<exists>rows. tracking (createTable st) = Some rows"
  by (cases "tracking st") (simp_all add: createTable_def)

lemma createTable_idem: "tracking st = Some rows \<Longrightarrow> createTable st = st"
  by (simp add: createTable_def)

text \<open>
  Claim C2. Let a first run with the PostgreSQL driver be fully successful:
  \<^verbatim>\<open>Start\<close> succeeds, the loop over the sets ends without an error and \<^verbatim>\<open>End\<close>,
  called with \<^verbatim>\<open>nil\<close>, commits without an error. (That \<^verbatim>\<open>Migrate\<close> returns \<^verbatim>\<open>nil\<close>
  says less: it does not return the error of \<^verbatim>\<open>End\<close>.) This is the run of
  \<^verbatim>\<open>Migrate\<close>, and in the tracking table it commits every file's version is at
  most the high-water mark of its directory. Take a second run over the same
  sequence from the state the first run left, on any connection and whatever
  the execution of a file would do. If its \<^verbatim>\<open>Start\<close> succeeds, the transaction
  begins with the committed state, and the loop succeeds and leaves the
  tracking table and the rest of the database as they are: no file is applied
  or recorded. However the second run ends, the committed database is the one
  the first run left; and when beginning, creating the table and committing
  succeed, the second run returns \<^verbatim>\<open>nil\<close> and leaves the driver's state as it was.
\<close>

theorem second_run_applies_nothing:
  assumes start: "Start (postgresDriver conn sqlExec) p = (None, p0)"
    and loop: "migrateLoop (postgresDriver conn sqlExec) migrations p0 = (None, pa)"
    and finish: "End (postgresDriver conn sqlExec) None pa = (None, p1)"
  shows "MigrateOver migrations (postgresDriver conn sqlExec) p = (None, p1)
         \<and> (\<exists>rows. tracking (DB p1) = Some rows
              \<and> (\<forall>x\<in>set migrations. \<exists>mz. x = Inr mz
                    \<and> (\<forall>f\<in>set (Files mz). Version f \<le> highWater rows (Dir mz))))
         \<and> (\<forall>q0. Start (postgresDriver conn' sqlExec') p1 = (None, q0) \<longrightarrow>
               tx q0 = Some (Active (DB p1))
               \<and> migrateLoop (postgresDriver conn' sqlExec') migrations q0 = (None, q0))
         \<and> DB (snd (MigrateOver migrations (postgresDriver conn' sqlExec') p1)) = DB p1
         \<and> (beginTxErr conn' = None \<and> createTableErr conn' = None \<and> commitErr conn' = None \<longrightarrow>
               MigrateOver migrations (postgresDriver conn' sqlExec') p1 = (None, p1))"
proof -
  let ?st0 = "createTable (DB p)"
  obtain rows0 where rows0: "tracking ?st0 = Some rows0" using createTable_Some by blast
  from start have p0: "p0 = p\<lparr>tx := Some (Active ?st0)\<rparr>"
    by (auto simp: postgresDriver_def pgStart_def split: option.splits)
  then have txp0: "tx p0 = Some (Active ?st0)" by simp
  from migrateLoop_pg_success [OF loop txp0 rows0] obtain st' rows' where
    r: "pa = p0\<lparr>tx := Some (Active st')\<rparr>" "tracking st' = Some rows'"
       "\<forall>x\<in>set migrations. \<exists>mz. x = Inr mz \<and> (\<forall>f\<in>set (Files mz). Version f \<le> highWater rows' (Dir mz))"
    by blast
  from finish r(1) have p1: "p1 = p\<lparr>DB := st', tx := Some Finished\<rparr>"
    by (auto simp: postgresDriver_def pgEnd_def p0 split: option.splits)
  have first: "MigrateOver migrations (postgresDriver conn sqlExec) p = (None, p1)"
    using start loop finish by (simp add: MigrateOver_def Let_def)
  have marks: "\<exists>rows. tracking (DB p1) = Some rows
      \<and> (\<forall>x\<in>set migrations. \<exists>mz. x = Inr mz \<and> (\<forall>f\<in>set (Files mz). Version f \<le> highWater rows (Dir mz)))"
    using p1 r(2,3) by simp
  have db: "DB p1 = st'" using p1 by simp
  let ?q0 = "p1\<lparr>tx := Some (Active st')\<rparr>"
  have loop2: "migrateLoop (postgresDriver conn' sqlExec') migrations ?q0 = (None, ?q0)"
    by (rule migrateLoop_pg_nothing [OF _ r(2) r(3)]) simp
  have start2: "\<And>q0. Start (postgresDriver conn' sqlExec') p1 = (None, q0) \<Longrightarrow> q0 = ?q0"
    using createTable_idem [OF r(2)] db
    by (auto simp: postgresDriver_def pgStart_def split: option.splits)
  have second: "\<forall>q0. Start (postgresDriver conn' sqlExec') p1 = (None, q0) \<longrightarrow>
      tx q0 = Some (Active (DB p1))
      \<and> migrateLoop (postgresDriver conn' sqlExec') migrations q0 = (None, q0)"
  proof (intro allI impI)
    fix q0 assume "Start (postgresDriver conn' sqlExec') p1 = (None, q0)"
    from start2 [OF this] have q0: "q0 = ?q0" .
    show "tx q0 = Some (Active (DB p1))
      \<and> migrateLoop (postgresDriver conn' sqlExec') migrations q0 = (None, q0)"
      unfolding q0 using loop2 db by simp
  qed
  have end2: "DB (snd (End (postgresDriver conn' sqlExec') None ?q0)) = DB p1"
    using db by (simp add: postgresDriver_def pgEnd_def split: option.splits)
  have same: "DB (snd (MigrateOver migrations (postgresDriver conn' sqlExec') p1)) = DB p1"
  proof (cases "Start (postgresDriver conn' sqlExec') p1")
    case (Pair e q0)
    show ?thesis
    proof (cases e)
      case None
      with Pair start2 have q0: "q0 = ?q0" by simp
      from Pair None q0 loop2 end2 show ?thesis
        by (simp add: MigrateOver_def Let_def split_beta)
    next
      case (Some err)
      with Pair have "DB q0 = DB p1"
        by (auto simp: postgresDriver_def pgStart_def split: option.splits)
      with Pair Some show ?thesis by (simp add: MigrateOver_def)
    qed
  qed
  have again: "beginTxErr conn' = None \<and> createTableErr conn' = None \<and> commitErr conn' = None \<longrightarrow>
      MigrateOver migrations (postgresDriver conn' sqlExec') p1 = (None, p1)"
  proof
    assume ok: "beginTxErr conn' = None \<and> createTableErr conn' = None \<and> commitErr conn' = None"
    then have s2: "Start (postgresDriver conn' sqlExec') p1 = (None, ?q0)"
      using createTable_idem [OF r(2)] db by (simp add: postgresDriver_def pgStart_def)
    have e2: "End (postgresDriver conn' sqlExec') None ?q0 = (None, p1)"
      using ok p1 by (simp add: postgresDriver_def pgEnd_def)
    from s2 loop2 e2 show "MigrateOver migrations (postgresDriver conn' sqlExec') p1 = (None, p1)"
      by (simp add: MigrateOver_def Let_def)
  qed
  show ?thesis by (intro conjI) (fact first marks second same again)+
qed

theorem second_run_applies_nothing_witness:
  "Start (postgresDriver reliable (\<lambda>content w. Inr (w @ [content])))
     \<lparr>DB = \<lparr>tracking = None, world = []\<rparr>, tx = None\<rparr>
   = (None, \<lparr>DB = \<lparr>tracking = None, world = []\<rparr>,
             tx = Some (Active \<lparr>tracking = Some [], world = []\<rparr>)\<rparr>)
   \<and> migrateLoop (postgresDriver reliable (\<lambda>content w. Inr (w @ [content])))
       (Migrations id globMatch \<lparr>Order = [], Skip = [], Extension = []\<rparr>
          (Inr (DirNode [(''1_create_users.sql'', FileNode ''CREATE TABLE users''),
                         (''2_create_posts.sql'', FileNode ''CREATE TABLE posts'')])))
       \<lparr>DB = \<lparr>tracking = None, world = []\<rparr>,
          tx = Some (Active \<lparr>tracking = Some [], world = []\<rparr>)\<rparr>
     = (None,
        \<lparr>DB = \<lparr>tracking = None, world = []\<rparr>,
           tx = Some (Active \<lparr>tracking = Some
                 [\<lparr>versionCol = 1, directoryCol = ''.'', fileNameCol = ''1_create_users.sql''\<rparr>,
                  \<lparr>versionCol = 2, directoryCol = ''.'', fileNameCol = ''2_create_posts.sql''\<rparr>],
               world = [''CREATE TABLE users'', ''CREATE TABLE posts'']\<rparr>)\<rparr>)
   \<and> End (postgresDriver reliable (\<lambda>content w. Inr (w @ [content]))) None
       \<lparr>DB = \<lparr>tracking = None, world = []\<rparr>,
          tx = Some (Active \<lparr>tracking = Some
                 [\<lparr>versionCol = 1, directoryCol = ''.'', fileNameCol = ''1_create_users.sql''\<rparr>,
                  \<lparr>versionCol = 2, directoryCol = ''.'', fileNameCol = ''2_create_posts.sql''\<rparr>],
               world = [''CREATE TABLE users'', ''CREATE TABLE posts'']\<rparr>)\<rparr>
     = (None,
        \<lparr>DB = \<lparr>tracking = Some
                 [\<lparr>versionCol = 1, directoryCol = ''.'', fileNameCol = ''1_create_users.sql''\<rparr>,
                  \<lparr>versionCol = 2, directoryCol = ''.'', fileNameCol = ''2_create_posts.sql''\<rparr>],
               world = [''CREATE TABLE users'', ''CREATE TABLE posts'']\<rparr>,
           tx = Some Finished\<rparr>)
   \<and> MigrateOver
       (Migrations id globMatch \<lparr>Order = [], Skip = [], Extension = []\<rparr>
          (Inr (DirNode [(''1_create_users.sql'', FileNode ''CREATE TABLE users''),
                         (''2_create_posts.sql'', FileNode ''CREATE TABLE posts'')])))
       (postgresDriver reliable (\<lambda>content w. Inr (w @ [content])))
       \<lparr>DB = \<lparr>tracking = Some
                 [\<lparr>versionCol = 1, directoryCol = ''.'', fileNameCol = ''1_create_users.sql''\<rparr>,
                  \<lparr>versionCol = 2, directoryCol = ''.'', fileNameCol = ''2_create_posts.sql''\<rparr>],
               world = [''CREATE TABLE users'', ''CREATE TABLE posts'']\<rparr>,
         tx = Some Finished\<rparr>
     = (None,
        \<lparr>DB = \<lparr>tracking = Some
                 [\<lparr>versionCol = 1, directoryCol = ''.'', fileNameCol = ''1_create_users.sql''\<rparr>,
                  \<lparr>versionCol = 2, directoryCol = ''.'', fileNameCol = ''2_create_posts.sql''\<rparr>],
               world = [''CREATE TABLE users'', ''CREATE TABLE posts'']\<rparr>,
           tx = Some Finished\<rparr>)"
proof -
  let ?ms = "Migrations id globMatch \<lparr>Order = [], Skip = [], Extension = []\<rparr>
        (Inr (DirNode [(''1_create_users.sql'', FileNode ''CREATE TABLE users''),
                       (''2_create_posts.sql'', FileNode ''CREATE TABLE posts'')]))"
  let ?ex = "\<lambda>content (w :: string list). (Inr (w @ [content]) :: error + string list)"
  let ?initial = "\<lparr>DB = \<lparr>tracking = None, world = ([] :: string list)\<rparr>, tx = None\<rparr>"
  let ?started = "\<lparr>DB = \<lparr>tracking = None, world = ([] :: string list)\<rparr>,
             tx = Some (Active \<lparr>tracking = Some [], world = []\<rparr>)\<rparr>"
  let ?st = "\<lparr>tracking = Some
                 [\<lparr>versionCol = 1, directoryCol = ''.'', fileNameCol = ''1_create_users.sql''\<rparr>,
                  \<lparr>versionCol = 2, directoryCol = ''.'', fileNameCol = ''2_create_posts.sql''\<rparr>],
               world = [''CREATE TABLE users'', ''CREATE TABLE posts'']\<rparr>"
  let ?looped = "\<lparr>DB = \<lparr>tracking = None, world = ([] :: string list)\<rparr>, tx = Some (Active ?st)\<rparr>"
  let ?ended = "\<lparr>DB = ?st, tx = Some Finished\<rparr>"
  have a: "Start (postgresDriver reliable ?ex) ?initial = (None, ?started)" by code_simp
  have b: "migrateLoop (postgresDriver reliable ?ex) ?ms ?started = (None, ?looped)" by code_simp
  have c: "End (postgresDriver reliable ?ex) None ?looped = (None, ?ended)" by code_simp
  have ok: "beginTxErr reliable = None \<and> createTableErr reliable = None \<and> commitErr reliable = None"
    by (simp add: reliable_def)
  from second_run_applies_nothing [OF a b c, of reliable ?ex] ok
  have d: "MigrateOver ?ms (postgresDriver reliable ?ex) ?ended = (None, ?ended)" by blast
  show ?thesis by (intro conjI) (fact a b c d)+
qed

section \<open>Files with the same version\<close>




section \<open>The orchestrator and the end of a run\<close>

text \<open>
  Claim C1 does not hold of the code. \<^verbatim>\<open>Process\<close> fails for the directory \<^verbatim>\<open>a\<close> and
  \<^verbatim>\<open>Migrate\<close> returns that error, but the one call of \<^verbatim>\<open>End\<close> has received \<^verbatim>\<open>nil\<close>:
  the argument of the deferred call was evaluated before the loop. With the
  PostgreSQL driver, \<^verbatim>\<open>End\<close> therefore commits: when the iterator yields an
  error after the first set, the rows and the effects of the first set are
  in the database although the run failed.
\<close>

theorem End_receives_nil_on_failure:
  "Migrate id globMatch \<lparr>Order = [], Skip = [], Extension = []\<rparr>
     (Inr (DirNode [(''a'', DirNode [(''1_x.sql'', FileNode ''X'')]),
                    (''b'', DirNode [(''1_y.sql'', FileNode ''Y'')])]))
     (recordingDriver [''a''] None) \<lparr>cancelled = False, calls = []\<rparr>
   = (Some (ErrExec ''a''),
      \<lparr>cancelled = False,
         calls = [StartCalled, ProcessCalled ''.'', ProcessCalled ''a'', EndCalled None]\<rparr>)
   \<and> MigrateOver
       [Inr \<lparr>Dir = ''a'', Files = [\<lparr>Path = ''1_x.sql'', Version = 1\<rparr>],
             fs = DirNode [(''a'', DirNode [(''1_x.sql'', FileNode ''X'')])]\<rparr>,
        Inl ErrReadDir]
       (postgresDriver reliable (\<lambda>content w. Inr (w @ [content])))
       \<lparr>DB = \<lparr>tracking = None, world = []\<rparr>, tx = None\<rparr>
     = (Some ErrReadDir,
        \<lparr>DB = \<lparr>tracking = Some [\<lparr>versionCol = 1, directoryCol = ''a'', fileNameCol = ''1_x.sql''\<rparr>],
                 world = [''X'']\<rparr>,
           tx = Some Finished\<rparr>)"
  by code_simp

text \<open>
  Claim C3 does not hold of the code. Every \<^verbatim>\<open>Process\<close> call succeeds and \<^verbatim>\<open>End\<close> is
  called with \<^verbatim>\<open>nil\<close>, but the error \<^verbatim>\<open>End\<close> returns (here a failed commit) is
  discarded with the deferred call: \<^verbatim>\<open>Migrate\<close> returns \<^verbatim>\<open>nil\<close>.
\<close>

theorem End_result_discarded:
  "Migrate id globMatch \<lparr>Order = [], Skip = [], Extension = []\<rparr>
     (Inr (DirNode [(''a'', DirNode [(''1_x.sql'', FileNode ''X'')]),
                    (''b'', DirNode [(''1_y.sql'', FileNode ''Y'')])]))
     (recordingDriver [] (Some ErrConn)) \<lparr>cancelled = False, calls = []\<rparr>
   = (None,
      \<lparr>cancelled = False,
         calls = [StartCalled, ProcessCalled ''.'', ProcessCalled ''a'', ProcessCalled ''b'',
                  EndCalled None]\<rparr>)"
  by code_simp

text \<open>
  Claim C4 does not hold of the code. \<^verbatim>\<open>Migrate\<close> of muz.go never reads \<^verbatim>\<open>ctx.Err()\<close>:
  with a context that is already cancelled and a driver that does not consult
  the context, every set is passed to \<^verbatim>\<open>Process\<close> and the run reports success.
  The earlier \<^verbatim>\<open>Migrate\<close> of \<^verbatim>\<open>src/unnamed/part_000\<close> does check the context before
  the files of each set: on the same context it applies no file and returns the
  cancellation.
\<close>

theorem cancellation_not_checked:
  "Migrate id globMatch \<lparr>Order = [], Skip = [], Extension = []\<rparr>
     (Inr (DirNode [(''a'', DirNode [(''1_x.sql'', FileNode ''X'')]),
                    (''b'', DirNode [(''1_y.sql'', FileNode ''Y'')])]))
     (recordingDriver [] None) \<lparr>cancelled = True, calls = []\<rparr>
   = (None,
      \<lparr>cancelled = True,
         calls = [StartCalled, ProcessCalled ''.'', ProcessCalled ''a'', ProcessCalled ''b'',
                  EndCalled None]\<rparr>)
   \<and> MigrateEarlier ctxErrOf recordingApply [Inr [''a/1_x.sql''], Inr [''b/1_y.sql'']]
       \<lparr>cancelled = True, calls = []\<rparr>
     = (Some Canceled, \<lparr>cancelled = True, calls = [StartCalled]\<rparr>)"
  by code_simp

text \<open>
  Whatever the driver and the sequence: once \<^verbatim>\<open>Start\<close> has succeeded, \<^verbatim>\<open>Migrate\<close>
  returns the result of the loop, and its final state is the one \<^verbatim>\<open>End\<close> leaves
  when called with \<^verbatim>\<open>nil\<close> on the state after the loop. What \<^verbatim>\<open>End\<close> returns
  does not reach the result.
\<close>

theorem Migrate_calls_End_with_nil:
  "MigrateOver migrations driver s =
     (case Start driver s of
        (Some err, s1) \<Rightarrow> (Some err, s1)
      | (None, s1) \<Rightarrow>
          (fst (migrateLoop driver migrations s1),
           snd (End driver None (snd (migrateLoop driver migrations s1)))))"
  by (simp add: MigrateOver_def Let_def split_beta split: prod.splits option.splits)

section \<open>Further properties\<close>

lemma maxVersion_upper:
  "r \<in> set rows \<Longrightarrow> directoryCol r = dir \<Longrightarrow> \<exists>v. maxVersion rows dir = Some v \<and> versionCol r \<le> v"
proof (induction rows rule: rev_induct)
  case Nil
  then show ?case by simp
next
  case (snoc x rows)
  show ?case
  proof (cases "r = x")
    case True
    with snoc.prems show ?thesis by (auto simp: maxVersion_snoc split: option.splits)
  next
    case False
    with snoc.prems have "r \<in> set rows" by simp
    from snoc.IH [OF this snoc.prems(2)] obtain v where "maxVersion rows dir = Some v" "versionCol r \<le> v"
      by blast
    then show ?thesis by (auto simp: maxVersion_snoc)
  qed
qed

lemma highWater_upper: "r \<in> set rows \<Longrightarrow> directoryCol r = dir \<Longrightarrow> versionCol r \<le> highWater rows dir"
  using maxVersion_upper [of r rows dir] by (auto simp: highWater_def)

lemma insertRow_above_highWater:
  assumes "tracking st = Some rows" and "highWater rows (directoryCol r) < versionCol r"
  shows "insertRow r st =
           (if versionCol r < - (2 ^ 31) \<or> 2 ^ 31 - 1 < versionCol r
            then Inl (ErrExec ''integer out of range'')
            else Inr (st\<lparr>tracking := Some (rows @ [r])\<rparr>))"
proof -
  have "\<not> list_ex (\<lambda>r'. versionCol r' = versionCol r \<and> directoryCol r' = directoryCol r) rows"
  proof
    assume "list_ex (\<lambda>r'. versionCol r' = versionCol r \<and> directoryCol r' = directoryCol r) rows"
    then obtain r' where r': "r' \<in> set rows" "versionCol r' = versionCol r" "directoryCol r' = directoryCol r"
      by (auto simp: list_ex_iff)
    from highWater_upper [OF r'(1,3)] r'(2) assms(2) show False by simp
  qed
  with assms(1) show ?thesis by (simp add: insertRow_def)
qed

lemma applyFiles_never_unique:
  "tracking st = Some rows \<Longrightarrow> v = highWater rows dir \<Longrightarrow>
     fst (applyFiles sqlExec data dir files v st) \<noteq> Some ErrUnique"
proof (induction files arbitrary: v st rows)
  case Nil
  show ?case by simp
next
  case (Cons f files)
  show ?case
  proof (cases "Version f \<le> v")
    case True
    with Cons show ?thesis by simp
  next
    case False
    let ?r = "\<lparr>versionCol = Version f, directoryCol = dir, fileNameCol = Path f\<rparr>"
    show ?thesis
    proof (cases "MuzoReadFile data (Path f)")
      case (Inl err)
      with False show ?thesis by (auto simp: MuzoReadFile_def ReadFile_def split: option.splits node.splits)
    next
      case (Inr content)
      show ?thesis
      proof (cases "sqlExec content (world st)")
        case (Inl err)
        with False Inr show ?thesis by simp
      next
        case w: (Inr w)
        have t: "tracking (st\<lparr>world := w\<rparr>) = Some rows" using Cons.prems(1) by simp
        have lt: "highWater rows (directoryCol ?r) < versionCol ?r" using False Cons.prems(2) by simp
        have ins: "insertRow ?r (st\<lparr>world := w\<rparr>) =
            (if Version f < - (2 ^ 31) \<or> 2 ^ 31 - 1 < Version f
             then Inl (ErrExec ''integer out of range'')
             else Inr (st\<lparr>world := w, tracking := Some (rows @ [?r])\<rparr>))"
          using insertRow_above_highWater [OF t lt] by simp
        have t1: "tracking (st\<lparr>world := w, tracking := Some (rows @ [?r])\<rparr>) = Some (rows @ [?r])" by simp
        have v1: "Version f = highWater (rows @ [?r]) dir"
          using highWater_snoc_new [of ?r dir rows] lt by simp
        show ?thesis
        proof (cases "Version f < - (2 ^ 31) \<or> 2 ^ 31 - 1 < Version f")
          case True
          with False Inr w ins show ?thesis by simp
        next
          case inrange: False
          with Cons.IH [OF t1 v1] False Inr w ins show ?thesis by simp
        qed
      qed
    qed
  qed
qed


text \<open>
  \<^verbatim>\<open>Process\<close> never fails on the constraint \<^verbatim>\<open>UNIQUE(version, directory)\<close>: a row is
  inserted only for a version above the high-water mark of its directory, and
  no recorded row of the directory has a version above that mark.
\<close>

theorem Process_never_violates_unique:
  "fst (processTx sqlExec data st) \<noteq> Some ErrUnique"
proof (cases "tracking st")
  case None
  then show ?thesis by (simp add: processTx_def selectMax_def Let_def)
next
  case (Some rows)
  then have "processTx sqlExec data st
      = applyFiles sqlExec data (Dir data) (Files data) (highWater rows (Dir data)) st"
    by (simp add: processTx_def selectMax_def highWater_def Let_def)
  with applyFiles_never_unique [OF Some refl] show ?thesis by simp
qed

lemma collectFiles_versions:
  "f \<in> set (collectFiles lower match m dir es) \<Longrightarrow>
     Version f = fst (extractLeadingNumber (Path f)) \<and> 0 < Version f"
proof (induction es)
  case Nil
  then show ?case by simp
next
  case (Cons e es)
  then show ?case by (cases e) (auto simp: Let_def split: if_splits)
qed

text \<open>
  Every file of a yielded set has a name that begins with a digit, and its
  version is the number \<^verbatim>\<open>extractLeadingNumber\<close> reads from the name, between 1
  and the largest \<^verbatim>\<open>int\<close>: a file without a leading digit is in no set.
\<close>

theorem yielded_files_numbered:
  assumes "Inr mz \<in> set (iterMigrationInfo lower match m fsub)" and "f \<in> set (Files mz)"
  shows "takeWhile isDigit (Path f) \<noteq> []
         \<and> Version f = fst (extractLeadingNumber (Path f))
         \<and> 0 < Version f \<and> Version f \<le> maxInt"
proof -
  from assms(1) obtain fileSystem dir es where
    "Files mz = sortMigrationFiles (collectFiles lower match m dir es)"
    by (auto simp: iterMigrationInfo_def getMigrationFiles_def split: sum.splits)
  with assms(2) have "f \<in> set (collectFiles lower match m dir es)"
    by (simp add: sortMigrationFiles_def set_SortFunc)
  from collectFiles_versions [OF this]
  have v: "Version f = fst (extractLeadingNumber (Path f))" and pos: "0 < Version f" by simp_all
  have "takeWhile isDigit (Path f) \<noteq> []"
  proof
    assume "takeWhile isDigit (Path f) = []"
    then have "fst (extractLeadingNumber (Path f)) = 0" by (simp add: extractLeadingNumber_def)
    with v pos show False by simp
  qed
  moreover have "Version f \<le> maxInt" using extractLeadingNumber_range [of "Path f"] v by simp
  ultimately show ?thesis using v pos by simp
qed

theorem yielded_files_numbered_witness:
  "Inr \<lparr>Dir = ''.'', Files = [\<lparr>Path = ''001_x.sql'', Version = 1\<rparr>],
        fs = DirNode [(''001_x.sql'', FileNode ''x''), (''readme.txt'', FileNode ''r'')]\<rparr>
     \<in> set (iterMigrationInfo id globMatch \<lparr>Order = [], Skip = [], Extension = []\<rparr>
          (Inr (DirNode [(''001_x.sql'', FileNode ''x''), (''readme.txt'', FileNode ''r'')])))
   \<and> \<lparr>Path = ''001_x.sql'', Version = 1\<rparr> \<in> set [\<lparr>Path = ''001_x.sql'', Version = 1\<rparr>]
   \<and> takeWhile isDigit ''001_x.sql'' \<noteq> []
   \<and> fst (extractLeadingNumber ''001_x.sql'') = 1"
proof -
  let ?fs = "DirNode [(''001_x.sql'', FileNode ''x''), (''readme.txt'', FileNode ''r'')]"
  let ?f = "\<lparr>Path = ''001_x.sql'', Version = 1\<rparr>"
  let ?mz = "\<lparr>Dir = ''.'', Files = [?f], fs = ?fs\<rparr>"
  have a: "Inr ?mz \<in> set (iterMigrationInfo id globMatch \<lparr>Order = [], Skip = [], Extension = []\<rparr> (Inr ?fs))"
    by code_simp
  have b: "?f \<in> set (Files ?mz)" by simp
  from yielded_files_numbered [OF a b]
  have c: "takeWhile isDigit ''001_x.sql'' \<noteq> []" and d: "fst (extractLeadingNumber ''001_x.sql'') = 1"
    by simp_all
  have b': "?f \<in> set [?f]" by simp
  show ?thesis by (intro conjI) (fact a b' c d)+
qed

lemma walk_keeps:
  "walkDir (dirsCallback match m) p d0 acc = (r, acc') \<Longrightarrow> set acc \<subseteq> set acc'"
  "walkEntries (dirsCallback match m) p es acc = (r, acc') \<Longrightarrow> set acc \<subseteq> set acc'"
proof (induction d0 and es arbitrary: p acc r acc' and p acc r acc' rule: wfNode_wfEntries.induct)
  case (1 content)
  then show ?case by (simp add: walkDir_File del: walkDir.simps)
next
  case 2
  then show ?case by (auto simp: walkDir_Unreadable simp del: walkDir.simps split: if_splits)
next
  case (3 entries)
  show ?case
  proof (cases "shouldSkipDir m p")
    case True
    with "3.prems" show ?thesis by (simp add: walkDir_Dir del: walkDir.simps)
  next
    case False
    with "3.prems" have "walkEntries (dirsCallback match m) p entries
        (if shouldSkip match m p then acc else acc @ [p]) = (r, acc')"
      by (simp add: walkDir_Dir del: walkDir.simps)
    from "3.IH" [OF this] show ?thesis by (auto split: if_splits)
  qed
next
  case 4
  then show ?case by simp
next
  case (5 n d rest)
  obtain r1 acc1 where w1: "walkDir (dirsCallback match m) (Join p n) d acc = (r1, acc1)"
    by (cases "walkDir (dirsCallback match m) (Join p n) d acc")
  from "5.IH"(1) [OF w1] have a1: "set acc \<subseteq> set acc1" .
  show ?case
  proof (cases r1)
    case Continue
    with "5.prems" w1 have "walkEntries (dirsCallback match m) p rest acc1 = (r, acc')" by simp
    from "5.IH"(2) [OF this] a1 show ?thesis by blast
  next
    case SkipDir
    with "5.prems" w1 a1 show ?thesis by auto
  next
    case (Fail e)
    with "5.prems" w1 a1 show ?thesis by auto
  qed
qed

text \<open>
  When the root is a directory that can be listed, the walk succeeds and no skip
  pattern applies to the path \<^verbatim>\<open>.\<close>, discovery yields a set for the root, also
  when no file of the root is a migration file.
\<close>

theorem root_is_yielded:
  assumes dirs: "getMigrationDirs match m (DirNode entries) = Inr dirs"
    and hard: "\<not> shouldSkipDir m ''.''" and soft: "\<not> shouldSkip match m ''.''"
  shows "\<exists>files. Inr \<lparr>Dir = ''.'', Files = files, fs = DirNode entries\<rparr>
           \<in> set (iterMigrationInfo lower match m (Inr (DirNode entries)))"
proof -
  from dirs obtain r where "walkDir (dirsCallback match m) ''.'' (DirNode entries) [] = (r, dirs)"
    by (auto simp: getMigrationDirs_def WalkDir_def split: prod.splits walkErr.splits)
  with hard soft have "walkEntries (dirsCallback match m) ''.'' entries [''.''] = (r, dirs)"
    by (simp add: walkDir_Dir del: walkDir.simps)
  from walk_keeps(2) [OF this] have root: "''.'' \<in> set (sortDirs m dirs)"
    by (simp add: set_sortDirs)
  have "getMigrationFiles lower match m (DirNode entries) ''.''
      = Inr (sortMigrationFiles (collectFiles lower match m ''.'' entries))"
    by (simp add: getMigrationFiles_def ReadDir_def openPath_def)
  with root dirs show ?thesis
    by (force simp: iterMigrationInfo_def image_iff)
qed

theorem root_is_yielded_witness:
  "getMigrationDirs globMatch \<lparr>Order = [], Skip = [], Extension = []\<rparr>
     (DirNode [(''empty'', DirNode [])]) = Inr [''.'', ''empty'']
   \<and> \<not> shouldSkipDir \<lparr>Order = [], Skip = [], Extension = []\<rparr> ''.''
   \<and> \<not> shouldSkip globMatch \<lparr>Order = [], Skip = [], Extension = []\<rparr> ''.''
   \<and> (\<exists>files. Inr \<lparr>Dir = ''.'', Files = files, fs = DirNode [(''empty'', DirNode [])]\<rparr>
           \<in> set (iterMigrationInfo id globMatch \<lparr>Order = [], Skip = [], Extension = []\<rparr>
                 (Inr (DirNode [(''empty'', DirNode [])]))))"
proof -
  let ?m = "\<lparr>Order = [], Skip = [], Extension = []\<rparr>"
  have a: "getMigrationDirs globMatch ?m (DirNode [(''empty'', DirNode [])]) = Inr [''.'', ''empty'']"
    by code_simp
  have b: "\<not> shouldSkipDir ?m ''.''" by code_simp
  have c: "\<not> shouldSkip globMatch ?m ''.''" by code_simp
  note d = root_is_yielded [OF a b c]
  show ?thesis by (intro conjI) (fact a b c d)+
qed

text \<open>
  The earlier orchestrator stops at a set boundary where the context is
  cancelled: no file of that set or of a later one is applied, and the state is
  the one the earlier calls left.
\<close>

theorem earlier_loop_stops_when_cancelled:
  "ctxErr s = Some e \<Longrightarrow> migrateLoopEarlier ctxErr apply (Inr files # rest) s = (Some e, s)"
  by simp

theorem earlier_loop_stops_when_cancelled_witness:
  "ctxErrOf \<lparr>cancelled = True, calls = [StartCalled]\<rparr> = Some Canceled
   \<and> migrateLoopEarlier ctxErrOf recordingApply (Inr [''a/1_x.sql''] # [Inr [''b/1_y.sql'']])
       \<lparr>cancelled = True, calls = [StartCalled]\<rparr>
     = (Some Canceled, \<lparr>cancelled = True, calls = [StartCalled]\<rparr>)"
proof -
  have a: "ctxErrOf \<lparr>cancelled = True, calls = [StartCalled]\<rparr> = Some Canceled"
    by (simp add: ctxErrOf_def)
  have b: "migrateLoopEarlier ctxErrOf recordingApply (Inr [''a/1_x.sql''] # [Inr [''b/1_y.sql'']])
       \<lparr>cancelled = True, calls = [StartCalled]\<rparr>
     = (Some Canceled, \<lparr>cancelled = True, calls = [StartCalled]\<rparr>)"
    using a by (rule earlier_loop_stops_when_cancelled)
  show ?thesis by (intro conjI) (fact a b)+
qed

end
